theory Spec2Isabelle
  imports Complex_Main
begin

section \<open>Python values and errors\<close>

text \<open>
  The exceptions that the modelled Python code can raise. A function that may raise
  returns \<open>py_error + 'a\<close>, with \<open>Inl\<close> carrying the exception.
\<close>

datatype py_error =
    ZeroDivisionError
  | AttributeError
  | TypeError
  | IndexError
  | RuntimeError
  | OverflowError
  | ValueError

text \<open>Sequencing of computations that may raise.\<close>

definition bindE :: "py_error + 'a \<Rightarrow> ('a \<Rightarrow> py_error + 'b) \<Rightarrow> py_error + 'b" where
  "bindE m f = (case m of Inl e \<Rightarrow> Inl e | Inr x \<Rightarrow> f x)"

text \<open>
  A floating-point value: a finite number, an infinity or a NaN.
\<close>

datatype tfloat = Fin real | PInf | NInf | NaN

text \<open>
  Rounding of a real number to the nearest floating-point number, ties to the even
  significand. \<open>binade x\<close> is the exponent \<open>e\<close> with \<open>2^e \<le> |x| < 2^(e+1)\<close>; a
  format with \<open>prec\<close> fraction bits and least normal exponent \<open>emin\<close> holds the
  multiples of \<open>2^(e - prec)\<close> there, and the multiples of \<open>2^(emin - prec)\<close> below
  \<open>2^emin\<close>. \<open>rint\<close> rounds to the nearest integer, ties to the even one.
\<close>

definition rint :: "real \<Rightarrow> int" where
  "rint x =
     (let f = \<lfloor>x\<rfloor>; d = x - of_int f
      in if d < 1 / 2 then f
         else if 1 / 2 < d then f + 1
         else if even f then f else f + 1)"

definition pow2 :: "int \<Rightarrow> real" where
  "pow2 k = (if 0 \<le> k then 2 ^ nat k else 1 / 2 ^ nat (- k))"

definition binade :: "real \<Rightarrow> int" where
  "binade x = \<lfloor>log 2 \<bar>x\<bar>\<rfloor>"

definition round_float :: "int \<Rightarrow> int \<Rightarrow> real \<Rightarrow> real" where
  "round_float prec emin x =
     (if x = 0 then 0
      else let u = pow2 (max (binade x) emin - prec)
           in of_int (rint (x / u)) * u)"

text \<open>
  The formats binary64 (Python's \<open>float\<close>) and binary32 (\<open>torch.float32\<close>). A result
  that rounds to \<open>2^1024\<close> or beyond in magnitude overflows to an infinity in binary64.
\<close>

definition round_binary64 :: "real \<Rightarrow> real" where
  "round_binary64 = round_float 52 (- 1022)"

definition round_binary32 :: "real \<Rightarrow> real" where
  "round_binary32 = round_float 23 (- 126)"

definition binary64_overflow :: real where
  "binary64_overflow = 2 ^ 1024"

definition to_binary64 :: "real \<Rightarrow> tfloat" where
  "to_binary64 x =
     (let y = round_binary64 x
      in if binary64_overflow \<le> y then PInf
         else if y \<le> - binary64_overflow then NInf
         else Fin y)"

text \<open>
  A Python number: an \<open>int\<close>, or a \<open>float\<close> given by its (finite) binary64 value.
\<close>

datatype py_num = PyInt int | PyFloat real

text \<open>
  Python's true division \<open>n / p\<close> of an \<open>int\<close> \<open>n\<close> by a number. For two
  \<open>int\<close>s the quotient is rounded once to binary64, and a quotient too large for a
  \<open>float\<close> raises \<open>OverflowError\<close>. For a \<open>float\<close> divisor, \<open>n\<close> is first
  converted to a \<open>float\<close> (\<open>OverflowError\<close> if it is too large) and the quotient is
  the binary64 quotient, which may be an infinity. A zero divisor raises
  \<open>ZeroDivisionError\<close>.
\<close>

fun py_truediv :: "int \<Rightarrow> py_num \<Rightarrow> py_error + tfloat" where
  "py_truediv n (PyInt p) =
     (if p = 0 then Inl ZeroDivisionError
      else case to_binary64 (of_int n / of_int p) of
             Fin y \<Rightarrow> Inr (Fin y)
           | _ \<Rightarrow> Inl OverflowError)"
| "py_truediv n (PyFloat p) =
     (case to_binary64 (of_int n) of
        Fin a \<Rightarrow> if p = 0 then Inl ZeroDivisionError else Inr (to_binary64 (a / p))
      | _ \<Rightarrow> Inl OverflowError)"

text \<open>
  \<open>int(x)\<close> of a \<open>float\<close> truncates towards zero; it raises \<open>OverflowError\<close> for an
  infinity and \<open>ValueError\<close> for a NaN.
\<close>

fun py_int :: "tfloat \<Rightarrow> py_error + int" where
  "py_int (Fin x) = Inr (if 0 \<le> x then \<lfloor>x\<rfloor> else \<lceil>x\<rceil>)"
| "py_int NaN = Inl ValueError"
| "py_int _ = Inl OverflowError"

section \<open>The generic agent (agents/agent.py)\<close>

text \<open>
  The instance attributes bound by \<open>Agent.__init__\<close>. The collaborators are kept
  abstract. \<open>observations_per_step\<close> is a number or Python's \<open>None\<close>;
  \<open>num_observations\<close> is the attribute \<open>_num_observations\<close>.
\<close>

record ('a, 'l, 'b) agent =
  actor :: 'a
  learner :: 'l
  buffer :: 'b
  min_observations :: int
  observations_per_step :: "py_num option"
  num_observations :: nat

text \<open>
  \<open>__init__(self, actor=None, learner=None, buffer=None, min_observations=0,
  observations_per_step=0)\<close>: the two numeric defaults are the integer 0.
\<close>

definition default_min_observations :: int where
  "default_min_observations = 0"

definition default_observations_per_step :: "py_num option" where
  "default_observations_per_step = Some (PyInt 0)"

definition Agent_init ::
  "'a \<Rightarrow> 'l \<Rightarrow> 'b \<Rightarrow> int \<Rightarrow> py_num option \<Rightarrow> ('a, 'l, 'b) agent" where
  "Agent_init a l b mo ops =
     \<lparr>actor = a, learner = l, buffer = b, min_observations = mo,
      observations_per_step = ops, num_observations = 0\<rparr>"

text \<open>
  \<open>_calc_num_steps\<close>. The parameter \<open>len_b\<close> is \<open>len(buffer)\<close> of the buffer
  collaborator. The last line is \<open>int(self._num_observations / self.observations_per_step)\<close>.
\<close>

definition calc_num_steps ::
  "('b \<Rightarrow> nat) \<Rightarrow> ('a, 'l, 'b) agent \<Rightarrow> py_error + int" where
  "calc_num_steps len_b s =
     (if int (len_b (buffer s)) < min_observations s then Inr 0
      else case observations_per_step s of
             None \<Rightarrow> Inr 1
           | Some p \<Rightarrow> bindE (py_truediv (int (num_observations s)) p) py_int)"

text \<open>
  The body of the loop \<open>for _ in range(num_steps)\<close> of \<open>update\<close>: one call of
  \<open>learner.step(buffer)\<close>, which may change the learner and the buffer or raise, and
  the reset of the counter.
\<close>

fun update_loop ::
  "('l \<Rightarrow> 'b \<Rightarrow> py_error + 'l \<times> 'b) \<Rightarrow> nat \<Rightarrow> ('a, 'l, 'b) agent
     \<Rightarrow> py_error + ('a, 'l, 'b) agent" where
  "update_loop lstep 0 s = Inr s"
| "update_loop lstep (Suc k) s =
     (case lstep (learner s) (buffer s) of
        Inl e \<Rightarrow> Inl e
      | Inr (l', b') \<Rightarrow>
          update_loop lstep k (s\<lparr>learner := l', buffer := b', num_observations := 0\<rparr>))"

text \<open>
  \<open>update\<close>. \<open>range(num_steps)\<close> is empty for a negative \<open>num_steps\<close>. The method
  has no \<open>return\<close> statement, so its value is Python's \<open>None\<close>; the returned value
  is modelled as an \<open>int option\<close>.
\<close>

definition update ::
  "('l \<Rightarrow> 'b \<Rightarrow> py_error + 'l \<times> 'b) \<Rightarrow> ('b \<Rightarrow> nat) \<Rightarrow> ('a, 'l, 'b) agent
     \<Rightarrow> py_error + ('a, 'l, 'b) agent \<times> int option" where
  "update lstep len_b s =
     bindE (calc_num_steps len_b s) (\<lambda>num_steps.
     bindE (update_loop lstep (nat num_steps) s) (\<lambda>s'. Inr (s', None)))"

text \<open>
  \<open>step_times lstep k (l, b)\<close> is the effect of \<open>k\<close> consecutive calls of
  \<open>learner.step(buffer)\<close>; it is used to state how often \<open>update\<close> calls the
  learner.
\<close>

fun step_times ::
  "('l \<Rightarrow> 'b \<Rightarrow> py_error + 'l \<times> 'b) \<Rightarrow> nat \<Rightarrow> 'l \<times> 'b \<Rightarrow> py_error + 'l \<times> 'b" where
  "step_times lstep 0 lb = Inr lb"
| "step_times lstep (Suc k) lb =
     (case lstep (fst lb) (snd lb) of
        Inl e \<Rightarrow> Inl e
      | Inr lb' \<Rightarrow> step_times lstep k lb')"

text \<open>A learner that only counts how often its \<open>step\<close> has been called.\<close>

definition counting_step :: "nat \<Rightarrow> nat \<Rightarrow> py_error + nat \<times> nat" where
  "counting_step l b = Inr (Suc l, b)"

section \<open>The DQN agent (agents/dqn/agent.py)\<close>

text \<open>
  \<open>np.round(x, decimals)\<close> scales by \<open>10 ^ decimals\<close>, rounds to the nearest integer
  with ties going to the even neighbour (\<open>rint\<close>), and scales back.
\<close>

definition np_round :: "real \<Rightarrow> nat \<Rightarrow> real" where
  "np_round x decimals = of_int (rint (x * 10 ^ decimals)) / 10 ^ decimals"

text \<open>
  The attributes of the actor collaborator that the agent writes: \<open>Qnetwork\<close> and
  \<open>epsilon\<close>.
\<close>

record 'q dqn_actor =
  actor_Qnetwork :: 'q
  actor_epsilon :: real

text \<open>
  \<open>self._logger = logger if logger is not None else NullLogger\<close>: without a logger
  argument the attribute is bound to the class \<open>NullLogger\<close> itself, not to an
  instance of it.
\<close>

datatype 'g logger_ref = NullLogger_class | Logger_object 'g

text \<open>
  A call \<open>self._logger.add_...(self, ...)\<close>. Looked up on the class \<open>NullLogger\<close>,
  the method is a plain function whose first parameter \<open>self\<close> takes the agent, so
  the call is one positional argument short and raises \<open>TypeError\<close>. The effects of a
  logger object (files and plots) are outside the model.
\<close>

definition logger_call :: "'g logger_ref \<Rightarrow> py_error + unit" where
  "logger_call lg = (case lg of NullLogger_class \<Rightarrow> Inl TypeError | Logger_object g \<Rightarrow> Inr ())"

text \<open>
  Modelled from the spec: the interface \<open>core.Actor\<close>, the base class of \<open>Agent\<close>
  whose source is not at hand, has the methods \<open>select_action\<close>, \<open>observe_first\<close>
  and \<open>observe\<close> of the actor contract and defines no attribute named \<open>_actor\<close>,
  \<open>_learner\<close> or \<open>_buffer\<close>; nor do \<open>Agent\<close> and \<open>DQNAgent\<close>. So these
  names are found on an agent only if they have been assigned to the instance.

  The instance attributes of a \<open>DQNAgent\<close>: \<open>Agent.__init__\<close> binds \<open>actor\<close>,
  \<open>learner\<close> and \<open>buffer\<close>. The methods read \<open>_actor\<close>, \<open>_learner\<close> and
  \<open>_buffer\<close>; these are the fields \<open>priv_actor\<close>, \<open>priv_learner\<close> and
  \<open>priv_buffer\<close>, where \<open>None\<close> stands for an attribute that has never been
  assigned, so that reading it raises \<open>AttributeError\<close>. \<open>n_new\<close> is the
  attribute \<open>n\<close>.
\<close>

record ('q, 'l, 'b, 'g) dqn_agent = "('q dqn_actor, 'l, 'b) agent" +
  priv_actor :: "'q dqn_actor option"
  priv_learner :: "'l option"
  priv_buffer :: "'b option"
  min_experiences :: int
  Q_update_every :: int
  n_new :: nat
  total_experiences :: nat
  logger :: "'g logger_ref"

text \<open>
  \<open>DQNAgent.__init__(actor, learner, buffer, min_experiences, Q_update_every,
  logger=None)\<close>, with \<open>super().__init__(actor, learner, buffer)\<close> leaving the
  defaults of \<open>min_observations\<close> and \<open>observations_per_step\<close>.
\<close>

definition DQNAgent_init ::
  "'q dqn_actor \<Rightarrow> 'l \<Rightarrow> 'b \<Rightarrow> int \<Rightarrow> int \<Rightarrow> 'g option \<Rightarrow> ('q, 'l, 'b, 'g) dqn_agent" where
  "DQNAgent_init a l b me que lg =
     agent.extend (Agent_init a l b default_min_observations default_observations_per_step)
       (dqn_agent.fields None None None me que 0 0
          (case lg of None \<Rightarrow> NullLogger_class | Some g \<Rightarrow> Logger_object g))"

text \<open>
  \<open>DQNAgent.observe\<close>. A method returns the state it leaves behind together with
  its result or the exception raised. \<open>actor_observe\<close> is the call
  \<open>self._actor.observe(action, timestep, is_last)\<close> of the actor collaborator, which
  may change the actor and the replay buffer it shares with the agent.
\<close>

definition dqn_observe ::
  "('q dqn_actor \<Rightarrow> 'b option \<Rightarrow> py_error + 'q dqn_actor \<times> 'b option) \<Rightarrow> bool
     \<Rightarrow> ('q, 'l, 'b, 'g) dqn_agent \<Rightarrow> ('q, 'l, 'b, 'g) dqn_agent \<times> (py_error + unit)" where
  "dqn_observe actor_observe is_last s =
     (case priv_actor s of
        None \<Rightarrow> (s, Inl AttributeError)
      | Some a \<Rightarrow>
          (case actor_observe a (priv_buffer s) of
             Inl e \<Rightarrow> (s, Inl e)
           | Inr (a', b') \<Rightarrow>
               (let s1 = s\<lparr>priv_actor := Some a', priv_buffer := b',
                            n_new := n_new s + 1,
                            total_experiences := total_experiences s + 1\<rparr>
                in if is_last
                   then (s1, bindE (logger_call (logger s1)) (\<lambda>_. logger_call (logger s1)))
                   else (s1, Inr ()))))"

text \<open>
  \<open>DQNAgent.update\<close>. \<open>lstep\<close> is \<open>learner.step(buffer)\<close>, \<open>qnet\<close> reads the
  attribute \<open>Qnetwork\<close> of the learner, \<open>len_b\<close> is \<open>len(buffer)\<close>.
\<close>

definition dqn_update ::
  "('l \<Rightarrow> 'b \<Rightarrow> py_error + 'l \<times> 'b) \<Rightarrow> ('l \<Rightarrow> 'q) \<Rightarrow> ('b \<Rightarrow> nat)
     \<Rightarrow> ('q, 'l, 'b, 'g) dqn_agent \<Rightarrow> ('q, 'l, 'b, 'g) dqn_agent \<times> (py_error + bool)" where
  "dqn_update lstep qnet len_b s =
     (case priv_buffer s of
        None \<Rightarrow> (s, Inl AttributeError)
      | Some b \<Rightarrow>
          if int (len_b b) < min_experiences s \<or> int (n_new s) < Q_update_every s
          then (s, Inr False)
          else
            (case priv_learner s of
               None \<Rightarrow> (s, Inl AttributeError)
             | Some l \<Rightarrow>
                 (case lstep l b of
                    Inl e \<Rightarrow> (s, Inl e)
                  | Inr (l', b') \<Rightarrow>
                      (let s1 = s\<lparr>priv_learner := Some l', priv_buffer := Some b'\<rparr>
                       in case priv_actor s1 of
                            None \<Rightarrow> (s1, Inl AttributeError)
                          | Some a \<Rightarrow>
                              (let a1 = a\<lparr>actor_Qnetwork := qnet l'\<rparr>;
                                   x = np_round (real (total_experiences s1) / 1000000) 1;
                                   a2 = a1\<lparr>actor_epsilon := 1 - min (9 / 10) x\<rparr>;
                                   s2 = s1\<lparr>priv_actor := Some a2, n_new := 0\<rparr>
                               in (s2, bindE (logger_call (logger s2)) (\<lambda>_.
                                       bindE (logger_call (logger s2)) (\<lambda>_. Inr True))))))))"

text \<open>
  An agent for examples: its attributes \<open>_actor\<close>, \<open>_learner\<close> and \<open>_buffer\<close>
  have been assigned after construction, the buffer holds 4 experiences with
  \<open>min_experiences = 2\<close>, and one observation has been made with \<open>Q_update_every = 1\<close>.
\<close>

definition example_dqn_agent :: "nat \<Rightarrow> (nat, nat, nat, unit) dqn_agent" where
  "example_dqn_agent tot =
     (DQNAgent_init \<lparr>actor_Qnetwork = 0, actor_epsilon = 1\<rparr> 0 4 2 1 (Some ()))
       \<lparr>priv_actor := Some \<lparr>actor_Qnetwork = 0, actor_epsilon = 1\<rparr>,
        priv_learner := Some 0, priv_buffer := Some 4,
        n_new := 1, total_experiences := tot\<rparr>"

section \<open>Tensors\<close>

text \<open>
  Tensor entries are idealised as real numbers. A tensor of shape \<open>(r, c)\<close> is the list
  of its \<open>r\<close> rows, each a list of \<open>c\<close> entries; a tensor of shape \<open>(b, t, a)\<close> is a
  list of \<open>b\<close> tensors of shape \<open>(t, a)\<close>. Every tensor drawn from the buffer is
  rectangular, with at least one row and one column: an empty list of rows does not record
  its number of columns and is read as the shape \<open>(0, 0)\<close>, and the properties below
  are stated for non-empty shapes only.
\<close>

definition nrows :: "'a list list \<Rightarrow> nat" where
  "nrows A = length A"

definition ncols :: "'a list list \<Rightarrow> nat" where
  "ncols A = (case A of [] \<Rightarrow> 0 | row # _ \<Rightarrow> length row)"

definition has_shape :: "'a list list \<Rightarrow> nat \<Rightarrow> nat \<Rightarrow> bool" where
  "has_shape A r c = (length A = r \<and> list_all (\<lambda>row. length row = c) A)"

definition has_shape3 :: "'a list list list \<Rightarrow> nat \<Rightarrow> nat \<Rightarrow> nat \<Rightarrow> bool" where
  "has_shape3 L b t a = (length L = b \<and> list_all (\<lambda>M. has_shape M t a) L)"

text \<open>The tensor of shape \<open>(r, c)\<close> with entry \<open>f i j\<close> at row \<open>i\<close>, column \<open>j\<close>.\<close>

definition tab2 :: "nat \<Rightarrow> nat \<Rightarrow> (nat \<Rightarrow> nat \<Rightarrow> 'a) \<Rightarrow> 'a list list" where
  "tab2 r c f = map (\<lambda>i. map (\<lambda>j. f i j) [0..<c]) [0..<r]"

text \<open>
  Broadcasting of an elementwise operation: two sizes of a dimension are compatible when
  they are equal or one of them is 1, and a dimension of size 1 is read at index 0. An
  operation on incompatible shapes raises a \<open>RuntimeError\<close>.
\<close>

definition bcast_dim :: "nat \<Rightarrow> nat \<Rightarrow> nat option" where
  "bcast_dim m n =
     (if m = n then Some m else if m = 1 then Some n else if n = 1 then Some m else None)"

definition bget1 :: "'a list \<Rightarrow> nat \<Rightarrow> 'a" where
  "bget1 v j = v ! (if length v = 1 then 0 else j)"

definition bget2 :: "'a list list \<Rightarrow> nat \<Rightarrow> nat \<Rightarrow> 'a" where
  "bget2 A i j = A ! (if nrows A = 1 then 0 else i) ! (if ncols A = 1 then 0 else j)"

definition ew1 :: "('a \<Rightarrow> 'b \<Rightarrow> 'c) \<Rightarrow> 'a list \<Rightarrow> 'b list \<Rightarrow> py_error + 'c list" where
  "ew1 f u v =
     (case bcast_dim (length u) (length v) of
        Some n \<Rightarrow> Inr (map (\<lambda>j. f (bget1 u j) (bget1 v j)) [0..<n])
      | None \<Rightarrow> Inl RuntimeError)"

definition ew2 ::
  "('a \<Rightarrow> 'b \<Rightarrow> 'c) \<Rightarrow> 'a list list \<Rightarrow> 'b list list \<Rightarrow> py_error + 'c list list" where
  "ew2 f A B =
     (case (bcast_dim (nrows A) (nrows B), bcast_dim (ncols A) (ncols B)) of
        (Some r, Some c) \<Rightarrow> Inr (tab2 r c (\<lambda>i j. f (bget2 A i j) (bget2 B i j)))
      | _ \<Rightarrow> Inl RuntimeError)"

text \<open>\<open>torch.matmul\<close> of two matrices.\<close>

definition matmul :: "real list list \<Rightarrow> real list list \<Rightarrow> py_error + real list list" where
  "matmul A M =
     (if ncols A = nrows M
      then Inr (tab2 (nrows A) (ncols M) (\<lambda>i c. \<Sum>k\<leftarrow>[0..<nrows M]. A ! i ! k * M ! k ! c))
      else Inl RuntimeError)"

text \<open>
  \<open>torch.sum(A, dim=0)\<close>, \<open>torch.sum(A, dim=-1, keepdim=True)\<close> and \<open>torch.sum(A)\<close>.
\<close>

definition sum_dim0 :: "real list list \<Rightarrow> real list" where
  "sum_dim0 A = map (\<lambda>j. \<Sum>i\<leftarrow>[0..<nrows A]. A ! i ! j) [0..<ncols A]"

definition sum_dim1_keepdim :: "real list list \<Rightarrow> real list list" where
  "sum_dim1_keepdim A = map (\<lambda>row. [sum_list row]) A"

definition sum_all :: "real list list \<Rightarrow> real" where
  "sum_all A = sum_list (map sum_list A)"

text \<open>
  \<open>torch.tile(v, dims=(b, 1))\<close> of a vector \<open>v\<close>, and \<open>torch.tile(A, dims=(1, s))\<close>
  of a matrix \<open>A\<close>.
\<close>

definition tile_rows :: "'a list \<Rightarrow> nat \<Rightarrow> 'a list list" where
  "tile_rows v b = replicate b v"

definition tile_cols :: "'a list list \<Rightarrow> nat \<Rightarrow> 'a list list" where
  "tile_cols A s = map (\<lambda>row. concat (replicate s row)) A"

definition ones_like :: "real list list \<Rightarrow> real list list" where
  "ones_like A = map (map (\<lambda>_. 1)) A"

text \<open>A boolean mask as a tensor of zeros and ones.\<close>

definition mask_tensor :: "bool list list \<Rightarrow> real list list" where
  "mask_tensor masks = map (map of_bool) masks"

text \<open>
  Where the code can produce a value that is not a real number, the result is a
  \<open>tfloat\<close>: division of tensors does not raise on a zero divisor, it yields an
  infinity or, for \<open>0 / 0\<close>, a NaN.
\<close>

definition tdiv :: "real \<Rightarrow> real \<Rightarrow> tfloat" where
  "tdiv a b =
     (if b \<noteq> 0 then Fin (a / b)
      else if a = 0 then NaN else if 0 < a then PInf else NInf)"

text \<open>
  \<open>F.softmax(x, dim=-1)\<close> of a vector of \<open>float32\<close> numbers: \<open>exp(x - max(x))\<close>
  divided by its sum. Every arithmetic operation rounds its exact result with \<open>fl\<close>:
  \<open>round_binary32\<close> is the arithmetic of the code, and the identity is exact arithmetic.
  The sum is accumulated from left to right; another order of the additions changes the
  result by rounding only. An entry \<open>-inf\<close> gets 0. If all entries are
  \<open>-inf\<close>, or one is \<open>+inf\<close> or NaN, the difference with the maximum is a NaN and so
  is every entry of the result.
\<close>

definition finite_entries :: "tfloat list \<Rightarrow> real list" where
  "finite_entries xs = concat (map (\<lambda>x. case x of Fin v \<Rightarrow> [v] | _ \<Rightarrow> []) xs)"

fun list_max :: "real list \<Rightarrow> real" where
  "list_max [] = 0"
| "list_max (v # vs) = fold max vs v"

fun texp :: "(real \<Rightarrow> real) \<Rightarrow> real \<Rightarrow> tfloat \<Rightarrow> real" where
  "texp fl m (Fin x) = fl (exp (fl (x - m)))"
| "texp fl m _ = 0"

definition fl_sum :: "(real \<Rightarrow> real) \<Rightarrow> real list \<Rightarrow> real" where
  "fl_sum fl es = fold (\<lambda>e a. fl (a + e)) es 0"

definition tround :: "(real \<Rightarrow> real) \<Rightarrow> tfloat \<Rightarrow> tfloat" where
  "tround fl t = (case t of Fin q \<Rightarrow> Fin (fl q) | _ \<Rightarrow> t)"

definition softmax :: "(real \<Rightarrow> real) \<Rightarrow> tfloat list \<Rightarrow> tfloat list" where
  "softmax fl xs =
     (if list_ex (\<lambda>x. x = NaN \<or> x = PInf) xs \<or> list_all (\<lambda>x. x = NInf) xs
      then map (\<lambda>_. NaN) xs
      else let m = list_max (finite_entries xs);
               es = map (texp fl m) xs;
               s = fl_sum fl es
           in map (\<lambda>e. tround fl (tdiv e s)) es)"

text \<open>
  \<open>F.cross_entropy(logits.permute(0, 2, 1), actions, reduction="none")\<close> with
  \<open>logits\<close> of shape \<open>(b, t, a)\<close> and \<open>actions\<close> of shape \<open>(b, t)\<close>: the entry at
  \<open>(i, t)\<close> is the negative log-probability of the class \<open>actions[i, t]\<close> under the
  softmax of \<open>logits[i, t]\<close>. A target equal to the default \<open>ignore_index = -100\<close>
  gives 0; any other target outside the classes raises \<open>IndexError\<close>. Logits and
  targets with different batch sizes raise a \<open>ValueError\<close>, with different numbers of
  timesteps a \<open>RuntimeError\<close>.
\<close>

definition num_classes :: "real list list list \<Rightarrow> nat" where
  "num_classes L = (case L of [] \<Rightarrow> 0 | M # _ \<Rightarrow> ncols M)"

definition nll_at :: "real list \<Rightarrow> int \<Rightarrow> real" where
  "nll_at l a = (if a = - 100 then 0 else ln (\<Sum>x\<leftarrow>l. exp x) - l ! nat a)"

definition valid_target :: "nat \<Rightarrow> int \<Rightarrow> bool" where
  "valid_target k a = (a = - 100 \<or> (0 \<le> a \<and> a < int k))"

definition cross_entropy ::
  "real list list list \<Rightarrow> int list list \<Rightarrow> py_error + real list list" where
  "cross_entropy logits actions =
     (if nrows logits \<noteq> nrows actions then Inl ValueError
      else if ncols logits \<noteq> ncols actions then Inl RuntimeError
      else if \<not> list_all (list_all (valid_target (num_classes logits))) actions
      then Inl IndexError
      else Inr (tab2 (nrows actions) (ncols actions)
                  (\<lambda>i t. nll_at (logits ! i ! t) (actions ! i ! t))))"

section \<open>The policy-gradient learner (agents/vpg/learning.py)\<close>

text \<open>
  The matrix built by the list comprehension of \<open>_discounted_cumulative_returns\<close>: row
  \<open>i\<close> holds \<open>discount ** j\<close> for \<open>j = i, i - 1, ..., 0\<close>, followed by
  \<open>steps - i - 1\<close> zeros.
\<close>

definition toeplitz :: "real \<Rightarrow> nat \<Rightarrow> real list list" where
  "toeplitz discount steps =
     map (\<lambda>i. map (\<lambda>j. discount ^ j) (rev [0..<Suc i]) @ replicate (steps - i - 1) 0)
       [0..<steps]"

text \<open>\<open>_discounted_cumulative_returns(rewards, masks=None, discount)\<close>.\<close>

definition discounted_cumulative_returns ::
  "real list list \<Rightarrow> bool list list option \<Rightarrow> real \<Rightarrow> py_error + real list list" where
  "discounted_cumulative_returns rewards masks discount =
     (let m = (case masks of None \<Rightarrow> ones_like rewards | Some mk \<Rightarrow> mask_tensor mk);
          steps = ncols rewards
      in bindE (matmul rewards (toeplitz discount steps)) (\<lambda>discounted_returns.
           ew2 (*) discounted_returns m))"

text \<open>\<open>torch.finfo(torch.float32).eps\<close>.\<close>

definition float32_eps :: real where
  "float32_eps = 1 / 2 ^ 23"

text \<open>
  \<open>_normalized_returns(returns, masks=None)\<close>. The standard deviations are computed
  and the returned expression does not use them.
\<close>

definition normalized_returns ::
  "real list list \<Rightarrow> bool list list option \<Rightarrow> py_error + real list list" where
  "normalized_returns returns masks =
     (let m = (case masks of None \<Rightarrow> ones_like returns | Some mk \<Rightarrow> mask_tensor mk);
          batch_size = nrows returns
      in bindE (ew2 (*) m returns) (\<lambda>mr.
         bindE (ew1 max (sum_dim0 m) [1]) (\<lambda>cnt.
         bindE (ew1 (/) (sum_dim0 mr) cnt) (\<lambda>means.
         bindE (ew2 (*) m (tile_rows means batch_size)) (\<lambda>masked_means.
         bindE (ew2 (-) mr masked_means) (\<lambda>centred.
         bindE (ew1 (/) (sum_dim0 (map (map (\<lambda>x. x\<^sup>2)) centred)) cnt) (\<lambda>masked_vars.
         bindE (ew1 max (map sqrt masked_vars) [float32_eps]) (\<lambda>masked_stds.
           Inr centred))))))))"

text \<open>\<open>_episode_entropy(logits, actions, masks)\<close>.\<close>

definition episode_entropy ::
  "real list list list \<Rightarrow> int list list \<Rightarrow> bool list list \<Rightarrow> py_error + real list list" where
  "episode_entropy logits actions masks =
     (let m = mask_tensor masks
      in bindE (cross_entropy logits actions) (\<lambda>nll.
         let step_entropy = map (map uminus) nll;
             steps = ncols actions
         in bindE (ew2 (*) m step_entropy) (\<lambda>ms.
            ew2 (*) m (tile_cols (sum_dim1_keepdim ms) steps))))"

text \<open>
  \<open>step\<close>, from the batch \<open>(observations, actions, rewards, masks)\<close> that
  \<open>buffer.draw\<close> returns to the loss that is handed to \<open>loss.backward()\<close>.
  \<open>policy_network\<close> maps the observations of the batch to the logits; \<open>discount\<close>
  and \<open>ereg\<close> are the entries of the configuration that this part reads. The calls of
  the optimizer and of the scheduler that follow, and the printed report, belong to the
  collaborators and are not modelled. There is no check of the batch in \<open>step\<close>: an
  exception can only come from one of the tensor operations. The loss is a quotient of
  two tensors. The entries of the tensors are finite and idealised as real numbers, so
  that the value of the loss is the code's up to rounding, for logits and rewards that are
  finite and do not overflow in \<open>float32\<close>; whether \<open>step\<close> raises does not depend on
  the entries of the logits, rewards and masks.
\<close>

definition step ::
  "('o \<Rightarrow> real list list list) \<Rightarrow> real \<Rightarrow> real
     \<Rightarrow> 'o \<times> int list list \<times> real list list \<times> bool list list \<Rightarrow> py_error + tfloat" where
  "step policy_network discount ereg bt =
     (case bt of (observations, actions, rewards, masks) \<Rightarrow>
      let logits = policy_network observations;
          m = mask_tensor masks
      in bindE (discounted_cumulative_returns rewards (Some masks) discount) (\<lambda>q_values.
         bindE (episode_entropy logits actions masks) (\<lambda>entropy.
         bindE (ew2 (-) q_values (map (map (\<lambda>e. 0.5 * ereg * e)) entropy)) (\<lambda>q_values.
         bindE (normalized_returns q_values (Some masks)) (\<lambda>q_values.
         bindE (cross_entropy logits actions) (\<lambda>nll.
         bindE (ew2 (*) m nll) (\<lambda>masked_nll.
         bindE (ew2 (*) masked_nll q_values) (\<lambda>weighted_nll.
           Inr (tdiv (sum_all weighted_nll) (sum_all m))))))))))"

text \<open>
  The reward-to-go of a reward sequence by direct recursion, for comparison:
  \<open>r\<^sub>0 + g * (r\<^sub>1 + g * (r\<^sub>2 + ...))\<close>.
\<close>

fun reward_to_go :: "real \<Rightarrow> real list \<Rightarrow> real" where
  "reward_to_go g [] = 0"
| "reward_to_go g (r # rs) = r + g * reward_to_go g rs"

text \<open>
  The probability that the softmax of a vector of logits gives to the action \<open>a\<close>, the
  entropy of that distribution, and the term that the description of the entropy bonus
  names: per episode, the sum over its active timesteps of the entropy of the policy's
  action distribution, copied to every active timestep. The last two follow the
  description, not the code.
\<close>

definition softmax_prob :: "real list \<Rightarrow> nat \<Rightarrow> real" where
  "softmax_prob l a = exp (l ! a) / (\<Sum>x\<leftarrow>l. exp x)"

definition dist_entropy :: "real list \<Rightarrow> real" where
  "dist_entropy l = - (\<Sum>a\<leftarrow>[0..<length l]. softmax_prob l a * ln (softmax_prob l a))"

definition described_episode_entropy ::
  "real list list list \<Rightarrow> bool list list \<Rightarrow> real list list" where
  "described_episode_entropy logits masks =
     tab2 (nrows masks) (ncols masks)
       (\<lambda>i t. of_bool (masks ! i ! t)
            * (\<Sum>k\<leftarrow>[0..<ncols masks]. of_bool (masks ! i ! k) * dist_entropy (logits ! i ! k)))"

section \<open>The policy of the policy-gradient agent (agents/vpg/agent.py)\<close>

text \<open>
  \<open>logits[illegal] = float("-inf")\<close>: assignment at a list of indices, which raises
  \<open>IndexError\<close> for an index outside the vector.
\<close>

definition index_put :: "'a list \<Rightarrow> nat list \<Rightarrow> 'a \<Rightarrow> py_error + 'a list" where
  "index_put xs idx v =
     (if list_ex (\<lambda>i. length xs \<le> i) idx then Inl IndexError
      else Inr (fold (\<lambda>i ys. ys[i := v]) idx xs))"

text \<open>
  The closure \<open>policy(observation, legal)\<close> built by \<open>PGAgent.__init__\<close>.
  \<open>policy_network\<close> maps an observation to the vector of logits, \<open>out_features\<close> is
  \<open>policy_network.output_layer.out_features\<close>, and \<open>legal\<close> is a list of action
  indices or \<open>None\<close>. \<open>illegal\<close> holds the indices of
  \<open>set(range(num_actions)) - set(legal)\<close>. The logits are finite \<open>float32\<close> numbers,
  and \<open>fl\<close> is the rounding of the arithmetic of \<open>F.softmax\<close>.
\<close>

definition policy ::
  "(real \<Rightarrow> real) \<Rightarrow> ('o \<Rightarrow> real list) \<Rightarrow> nat \<Rightarrow> 'o \<Rightarrow> int list option
     \<Rightarrow> py_error + tfloat list" where
  "policy fl policy_network out_features observation legal =
     (let logits = map Fin (policy_network observation)
      in bindE (case legal of
                  None \<Rightarrow> Inr logits
                | Some lg \<Rightarrow>
                    (let num_actions = out_features;
                         illegal = filter (\<lambda>i. int i \<notin> set lg) [0..<num_actions]
                     in index_put logits illegal NInf))
           (\<lambda>logits. Inr (softmax fl logits)))"

section \<open>Properties of floating-point rounding\<close>

lemma bindE_Inr [simp]: "bindE (Inr x) f = f x"
  by (simp add: bindE_def)

lemma bindE_Inl [simp]: "bindE (Inl e) f = Inl e"
  by (simp add: bindE_def)

lemma pow2_pos [simp]: "0 < pow2 k"
  by (simp add: pow2_def)

lemma pow2_nonneg [simp]: "0 \<le> pow2 k"
  by (simp add: pow2_def)

lemma abs_pow2 [simp]: "\<bar>pow2 k\<bar> = pow2 k"
  by (simp add: pow2_def)

lemma pow2_neq_0 [simp]: "pow2 k \<noteq> 0"
  by (simp add: pow2_def)

lemma pow2_powr: "pow2 k = 2 powr of_int k"
  by (simp add: pow2_def powr_real_of_int inverse_eq_divide)

lemma pow2_add: "pow2 (j + k) = pow2 j * pow2 k"
  by (simp add: pow2_powr powr_add)

lemma pow2_mono: "j \<le> k \<Longrightarrow> pow2 j \<le> pow2 k"
  by (simp add: pow2_powr)

lemma pow2_nat: "pow2 (int n) = 2 ^ n"
  by (simp add: pow2_def)

lemma pow2_neg: "pow2 (- k) = 1 / pow2 k"
  by (simp add: pow2_powr powr_minus inverse_eq_divide)

lemma binade_bounds:
  assumes "x \<noteq> 0"
  shows "pow2 (binade x) \<le> \<bar>x\<bar>" and "\<bar>x\<bar> < pow2 (binade x + 1)"
proof -
  have x: "0 < \<bar>x\<bar>" using assms by simp
  have "of_int (binade x) \<le> log 2 \<bar>x\<bar>" by (simp add: binade_def)
  then show "pow2 (binade x) \<le> \<bar>x\<bar>"
    using x by (simp add: pow2_powr le_log_iff)
  have "log 2 \<bar>x\<bar> < of_int (binade x + 1)" by (simp add: binade_def)
  then show "\<bar>x\<bar> < pow2 (binade x + 1)"
    using x by (simp add: pow2_powr log_less_iff del: of_int_add)
qed

lemma binade_eqI:
  assumes "pow2 k \<le> \<bar>x\<bar>" and "\<bar>x\<bar> < pow2 (k + 1)"
  shows "binade x = k"
proof -
  have x: "0 < \<bar>x\<bar>" using assms(1) pow2_pos [of k] by linarith
  have "of_int k \<le> log 2 \<bar>x\<bar>" using assms(1) x by (simp add: pow2_powr le_log_iff)
  moreover have "log 2 \<bar>x\<bar> < of_int k + 1"
    using assms(2) x by (simp add: pow2_powr log_less_iff)
  ultimately show ?thesis by (simp add: binade_def floor_eq_iff)
qed

lemma binade_less:
  assumes "x \<noteq> 0" and "\<bar>x\<bar> < pow2 k"
  shows "binade x < k"
proof (rule ccontr)
  assume "\<not> binade x < k"
  then have "pow2 k \<le> pow2 (binade x)" by (simp add: pow2_mono)
  then show False using binade_bounds(1) [OF assms(1)] assms(2) by linarith
qed

lemma rint_ge_floor: "\<lfloor>x\<rfloor> \<le> rint x"
  by (simp add: rint_def Let_def)

lemma rint_of_int: "rint (of_int k) = k"
  by (simp add: rint_def Let_def)

lemma rint_ge_int:
  assumes "of_int k \<le> x"
  shows "k \<le> rint x"
proof -
  have "k \<le> \<lfloor>x\<rfloor>" using assms by (simp add: le_floor_iff)
  then show ?thesis using rint_ge_floor [of x] by linarith
qed

lemma rint_le_half: "of_int (rint x) \<le> x + 1 / 2"
  by (simp add: rint_def Let_def) linarith

lemma rint_ge_half: "x - 1 / 2 \<le> of_int (rint x)"
  by (simp add: rint_def Let_def) linarith

lemma round_float_nonneg:
  assumes "0 \<le> x"
  shows "0 \<le> round_float prec emin x"
proof (cases "x = 0")
  case True
  then show ?thesis by (simp add: round_float_def)
next
  case False
  let ?u = "pow2 (max (binade x) emin - prec)"
  have "of_int 0 \<le> x / ?u" using assms by simp
  then have "0 \<le> rint (x / ?u)" by (rule rint_ge_int)
  then show ?thesis using False by (simp add: round_float_def Let_def)
qed

lemma round_float_error:
  assumes "x \<noteq> 0"
  shows "\<bar>round_float prec emin x - x\<bar> \<le> pow2 (max (binade x) emin - prec) / 2"
proof -
  let ?u = "pow2 (max (binade x) emin - prec)"
  have u: "0 < ?u" by simp
  have "\<bar>of_int (rint (x / ?u)) - x / ?u\<bar> \<le> 1 / 2"
    using rint_le_half [of "x / ?u"] rint_ge_half [of "x / ?u"] by linarith
  then have "\<bar>of_int (rint (x / ?u)) - x / ?u\<bar> * ?u \<le> 1 / 2 * ?u"
    using u by (simp only: mult_right_mono less_imp_le)
  moreover have "\<bar>of_int (rint (x / ?u)) - x / ?u\<bar> * ?u = \<bar>of_int (rint (x / ?u)) * ?u - x\<bar>"
  proof -
    have "\<bar>of_int (rint (x / ?u)) - x / ?u\<bar> * ?u = \<bar>(of_int (rint (x / ?u)) - x / ?u) * ?u\<bar>"
      using u by (simp add: abs_mult)
    also have "(of_int (rint (x / ?u)) - x / ?u) * ?u = of_int (rint (x / ?u)) * ?u - x"
      using u by (simp add: algebra_simps)
    finally show ?thesis .
  qed
  ultimately show ?thesis using assms by (simp add: round_float_def Let_def)
qed

text \<open>A multiple of the unit in the last place below \<open>x\<close> stays below the rounded value.\<close>

lemma round_float_ge_multiple:
  assumes "x \<noteq> 0" and "of_int m * pow2 (max (binade x) emin - prec) \<le> x"
  shows "of_int m * pow2 (max (binade x) emin - prec) \<le> round_float prec emin x"
proof -
  let ?u = "pow2 (max (binade x) emin - prec)"
  have u: "0 < ?u" by simp
  have "of_int m \<le> x / ?u" using assms(2) u by (simp add: pos_le_divide_eq)
  then have "m \<le> rint (x / ?u)" by (rule rint_ge_int)
  then have "of_int m * ?u \<le> of_int (rint (x / ?u)) * ?u"
    using u by (simp add: mult_right_mono)
  then show ?thesis using assms(1) by (simp add: round_float_def Let_def)
qed

lemma int_quotient_rounds_within:
  fixes n :: nat and p :: int
  assumes n: "0 < n" "n < 2 ^ 53" and p: "0 < p"
  shows "of_int (int n div p) \<le> round_binary64 (of_int (int n) / of_int p)"
    and "round_binary64 (of_int (int n) / of_int p) < of_int (int n div p) + 1"
proof -
  define x :: real where "x = of_int (int n) / of_int p"
  define q where "q = int n div p"
  define e where "e = max (binade x) (- 1022)"
  define u where "u = pow2 (e - 52)"
  have x0: "0 < x" using n p by (simp add: x_def)
  have xn: "x \<noteq> 0" using x0 by simp
  have n53: "real n < 2 ^ 53"
    using n(2) of_nat_less_iff [of n "2 ^ 53", where ?'a = real] by simp
  have xp: "x * of_int p = real n" using p by (simp add: x_def)
  have "x \<le> x * of_int p" using x0 p by (simp add: mult_le_cancel_left1)
  then have x53: "\<bar>x\<bar> < pow2 53" using xp n53 x0 by (simp add: pow2_def)
  have e52: "e \<le> 52" using binade_less [OF xn x53] by (simp add: e_def)
  define N where "N = nat (52 - e)"
  have eN: "e - 52 = - int N" using e52 by (simp add: N_def)
  have u: "u = 1 / 2 ^ N" unfolding u_def eN by (simp add: pow2_def)
  have fl: "\<lfloor>x\<rfloor> = q"
    using floor_divide_of_int_eq [of "int n" p, where ?'a = real] by (simp add: x_def q_def)
  have qx: "of_int q \<le> x"
    using of_int_floor_le [of x] unfolding fl .
  have q0: "0 \<le> q" using p by (simp add: q_def pos_imp_zdiv_nonneg_iff)
  have mult: "of_int (q * 2 ^ N) * u = of_int q" by (simp add: u)
  have rf: "round_binary64 x = round_float 52 (- 1022) x" by (simp add: round_binary64_def)
  have lower: "of_int q \<le> round_binary64 x"
    using round_float_ge_multiple [OF xn, of "q * 2 ^ N" "- 1022" 52] qx
    unfolding rf e_def [symmetric] u_def [symmetric] mult by simp
  have err: "round_binary64 x \<le> x + u / 2"
    using round_float_error [OF xn, of 52 "- 1022"]
    unfolding rf e_def [symmetric] u_def [symmetric] by linarith
  have "x + u / 2 < of_int q + 1"
  proof (cases "- 1022 \<le> binade x")
    case True
    then have e: "e = binade x" by (simp add: e_def)
    have "pow2 e \<le> x" using binade_bounds(1) [OF xn] x0 by (simp add: e)
    moreover have "u / 2 = pow2 e / 2 ^ 53"
      unfolding u_def using pow2_add [of e "- 52"] by (simp add: pow2_def)
    ultimately have 1: "u / 2 \<le> x / 2 ^ 53" by (simp add: divide_right_mono)
    have "x * of_int p < 2 ^ 53" using xp n53 by simp
    then have 2: "x / 2 ^ 53 < 1 / of_int p"
      using p by (simp add: field_simps)
    have "int n mod p < p" using p by simp
    moreover have "int n = p * q + int n mod p" by (simp add: q_def)
    ultimately have "int n < p * (q + 1)" by (simp add: distrib_left)
    then have "1 \<le> p * (q + 1) - int n" by simp
    then have "(1::real) \<le> of_int (p * (q + 1) - int n)" by (simp only: of_int_1_le_iff)
    then have "(1::real) \<le> of_int p * (of_int q + 1) - real n" by simp
    then have "(1::real) \<le> of_int p * (of_int q + 1) - x * of_int p" by (simp only: xp)
    then have 3: "1 / of_int p \<le> of_int q + 1 - x"
      using p by (simp add: field_simps)
    show ?thesis using 1 2 3 by linarith
  next
    case False
    then have e: "e = - 1022" by (simp add: e_def)
    have "\<bar>x\<bar> < pow2 (binade x + 1)" using binade_bounds(2) [OF xn] .
    also have "\<dots> \<le> pow2 (- 1022)" using False by (intro pow2_mono) simp
    also have "\<dots> \<le> pow2 (- 2)" by (intro pow2_mono) simp
    finally have 1: "x < 1 / 4" using x0 by (simp add: pow2_def)
    have "u \<le> pow2 (- 2)" unfolding u_def e by (intro pow2_mono) simp
    then have 2: "u \<le> 1 / 4" by (simp add: pow2_def)
    show ?thesis using 1 2 q0 by simp
  qed
  then have upper: "round_binary64 x < of_int q + 1" using err by linarith
  show "of_int (int n div p) \<le> round_binary64 (of_int (int n) / of_int p)"
    using lower by (simp add: x_def q_def)
  show "round_binary64 (of_int (int n) / of_int p) < of_int (int n div p) + 1"
    using upper by (simp add: x_def q_def)
qed

lemma rint_nearest:
  assumes "of_int k - 1 / 2 < x" and "x < of_int k + 1 / 2"
  shows "rint x = k"
  using assms by (simp add: rint_def Let_def) linarith

lemma round_float_exact:
  assumes "x \<noteq> 0" and "x = of_int m * pow2 (max (binade x) emin - prec)"
  shows "round_float prec emin x = x"
proof -
  let ?u = "pow2 (max (binade x) emin - prec)"
  have "x / ?u = of_int m" using assms(2) by (simp add: field_simps)
  then have "rint (x / ?u) = m" by (simp add: rint_of_int)
  then show ?thesis using assms by (simp add: round_float_def Let_def)
qed

lemma to_binary64_Fin:
  assumes "- binary64_overflow < round_binary64 x" and "round_binary64 x < binary64_overflow"
  shows "to_binary64 x = Fin (round_binary64 x)"
  using assms by (simp add: to_binary64_def Let_def)

lemma binary64_overflow_ge: "2 ^ 53 \<le> binary64_overflow"
  unfolding binary64_overflow_def by (rule power_increasing) simp_all

lemma binary64_overflow_pos: "0 < binary64_overflow"
  by (simp add: binary64_overflow_def)

lemma int_truediv_floor:
  fixes n :: nat and p :: int
  assumes "n < 2 ^ 53" and "0 < p"
  shows "bindE (py_truediv (int n) (PyInt p)) py_int = Inr (int n div p)"
proof (cases "n = 0")
  case True
  have "round_binary64 0 = 0" by (simp add: round_binary64_def round_float_def)
  moreover note binary64_overflow_pos
  ultimately have "to_binary64 0 = Fin 0" by (simp add: to_binary64_Fin)
  then show ?thesis using True assms(2) by simp
next
  case False
  then have n: "0 < n" by simp
  define y where "y = round_binary64 (real n / real_of_int p)"
  define q where "q = int n div p"
  have lo: "of_int q \<le> y" and hi: "y < of_int q + 1"
    using int_quotient_rounds_within [OF n assms] by (simp_all add: y_def q_def)
  have q0: "0 \<le> q" using assms(2) by (simp add: q_def pos_imp_zdiv_nonneg_iff)
  have "q = int (n div nat p)" using assms(2) by (simp add: q_def zdiv_int)
  then have "q \<le> int n" by (simp add: div_le_dividend)
  then have "q + 1 \<le> 2 ^ 53" using assms(1) by simp
  then have "(of_int (q + 1) :: real) \<le> of_int (2 ^ 53)" by (simp only: of_int_le_iff)
  then have "y < 2 ^ 53" using hi by simp
  then have y_small: "y < binary64_overflow" using binary64_overflow_ge by linarith
  have y0: "0 \<le> y" using lo q0 by (simp add: order_trans [of 0 "of_int q" y])
  have "- binary64_overflow < y" using y0 binary64_overflow_pos by linarith
  then have fin: "to_binary64 (real n / real_of_int p) = Fin y"
    using y_small unfolding y_def by (rule to_binary64_Fin)
  have "\<lfloor>y\<rfloor> = q" using lo hi by (simp add: floor_eq_iff)
  then show ?thesis
    using assms(2) y0 fin by (simp add: q_def)
qed

lemma round_float_zero [simp]: "round_float prec emin 0 = 0"
  by (simp add: round_float_def)

lemma round_float_one:
  assumes "0 \<le> prec" and "emin \<le> 0"
  shows "round_float prec emin 1 = 1"
proof -
  have b: "binade 1 = 0" by (simp add: binade_def)
  have e: "max (binade 1) emin = 0" using assms b by simp
  have p: "pow2 prec = 2 ^ nat prec" using assms by (simp add: pow2_def)
  have "pow2 prec * pow2 (- prec) = pow2 (prec + - prec)"
    by (rule pow2_add [symmetric])
  then have "(2 :: real) ^ nat prec * pow2 (- prec) = 1"
    unfolding p by (simp add: pow2_def)
  then have "(1 :: real) = of_int (2 ^ nat prec) * pow2 (max (binade 1) emin - prec)"
    unfolding e by simp
  then show ?thesis by (intro round_float_exact [where m = "2 ^ nat prec"]) simp_all
qed

lemma round_float_ge_one:
  assumes "0 \<le> prec" and "emin \<le> 0" and "1 \<le> x"
  shows "1 \<le> round_float prec emin x"
proof -
  define e where "e = max (binade x) emin"
  have x0: "x \<noteq> 0" using assms by simp
  have b: "0 \<le> binade x"
  proof (rule ccontr)
    assume "\<not> 0 \<le> binade x"
    then have "pow2 (binade x + 1) \<le> pow2 0" by (intro pow2_mono) simp
    moreover have "\<bar>x\<bar> < pow2 (binade x + 1)" using x0 by (rule binade_bounds)
    ultimately show False using assms by (simp add: pow2_def)
  qed
  have e: "e = binade x" "0 \<le> e" using b assms by (simp_all add: e_def)
  have p: "pow2 prec = 2 ^ nat prec" using assms by (simp add: pow2_def)
  have "pow2 prec * pow2 (e - prec) = pow2 (prec + (e - prec))"
    by (rule pow2_add [symmetric])
  then have m: "of_int (2 ^ nat prec) * pow2 (e - prec) = pow2 e"
    unfolding p by simp
  have "pow2 e \<le> \<bar>x\<bar>" unfolding e(1) using x0 by (rule binade_bounds)
  then have le: "of_int (2 ^ nat prec) * pow2 (max (binade x) emin - prec) \<le> x"
    using assms m by (simp add: e_def)
  have "pow2 0 \<le> pow2 e" using e(2) by (rule pow2_mono)
  then have "1 \<le> of_int (2 ^ nat prec) * pow2 (max (binade x) emin - prec)"
    using m by (simp add: e_def pow2_def)
  also have "\<dots> \<le> round_float prec emin x" using x0 le by (rule round_float_ge_multiple)
  finally show ?thesis .
qed

text \<open>A multiple of the unit in the last place above \<open>x\<close> stays above the rounded value.\<close>

lemma rint_le_int:
  assumes "x \<le> of_int k"
  shows "rint x \<le> k"
proof -
  have "x - 1 / 2 \<le> of_int (rint x)" by (rule rint_ge_half)
  have f: "\<lfloor>x\<rfloor> \<le> k" using assms by (simp add: floor_le_iff)
  show ?thesis
  proof (cases "x - of_int \<lfloor>x\<rfloor> < 1 / 2")
    case True
    then show ?thesis using f by (simp add: rint_def Let_def)
  next
    case False
    then have "of_int \<lfloor>x\<rfloor> < x" by linarith
    then have "of_int \<lfloor>x\<rfloor> < (of_int k :: real)" using assms by linarith
    then have "\<lfloor>x\<rfloor> < k" by simp
    then have "\<lfloor>x\<rfloor> + 1 \<le> k" by simp
    then show ?thesis using f by (simp add: rint_def Let_def)
  qed
qed

lemma round_float_le_multiple:
  assumes "x \<noteq> 0" and "x \<le> of_int m * pow2 (max (binade x) emin - prec)"
  shows "round_float prec emin x \<le> of_int m * pow2 (max (binade x) emin - prec)"
proof -
  let ?u = "pow2 (max (binade x) emin - prec)"
  have u: "0 < ?u" by simp
  have "x / ?u \<le> of_int m" using assms(2) u by (simp add: pos_divide_le_eq)
  then have "rint (x / ?u) \<le> m" by (rule rint_le_int)
  then have "of_int (rint (x / ?u)) * ?u \<le> of_int m * ?u"
    using u by (simp add: mult_right_mono)
  then show ?thesis using assms(1) by (simp add: round_float_def Let_def)
qed

lemma round_float_nonpos:
  assumes "x \<le> 0"
  shows "round_float prec emin x \<le> 0"
proof (cases "x = 0")
  case True
  then show ?thesis by simp
next
  case False
  have "x \<le> of_int 0 * pow2 (max (binade x) emin - prec)" using assms by simp
  with False have "round_float prec emin x \<le> of_int 0 * pow2 (max (binade x) emin - prec)"
    by (rule round_float_le_multiple)
  then show ?thesis by simp
qed

text \<open>
  Below \<open>2^(prec + 1)\<close> every integer is a floating-point number, so that rounding does
  not cross it.
\<close>

lemma round_float_le_int:
  assumes prec: "0 \<le> prec" and emin: "emin \<le> 0"
    and le: "x \<le> of_int N" and small: "\<bar>x\<bar> < pow2 (prec + 1)"
  shows "round_float prec emin x \<le> of_int N"
proof (cases "x = 0")
  case True
  then show ?thesis using le by simp
next
  case False
  define j where "j = prec - max (binade x) emin"
  have "binade x < prec + 1" using False small by (rule binade_less)
  then have j: "0 \<le> j" using prec emin by (simp add: j_def)
  have e: "max (binade x) emin - prec = - j" by (simp add: j_def)
  have "pow2 j * pow2 (- j) = pow2 (j + - j)" by (rule pow2_add [symmetric])
  then have one: "pow2 j * pow2 (- j) = 1" by (simp add: pow2_def)
  have pj: "pow2 j = of_int (2 ^ nat j)" using j by (simp add: pow2_def)
  have N: "of_int (N * 2 ^ nat j) * pow2 (- j) = (of_int N :: real)"
  proof -
    have "of_int (N * 2 ^ nat j) * pow2 (- j) = of_int N * (pow2 j * pow2 (- j))"
      unfolding pj by simp
    then show ?thesis unfolding one by simp
  qed
  have "x \<le> of_int (N * 2 ^ nat j) * pow2 (max (binade x) emin - prec)"
    unfolding e N by (rule le)
  with False
  have "round_float prec emin x \<le> of_int (N * 2 ^ nat j) * pow2 (max (binade x) emin - prec)"
    by (rule round_float_le_multiple)
  then show ?thesis unfolding e N .
qed

text \<open>A number that is not below the least positive floating-point number is not rounded to 0.\<close>

lemma round_float_pos:
  assumes prec: "0 \<le> prec" and x: "pow2 (emin - prec) \<le> x"
  shows "0 < round_float prec emin x"
proof -
  let ?u = "pow2 (max (binade x) emin - prec)"
  have x0: "0 < x" using x pow2_pos [of "emin - prec"] by linarith
  then have x1: "x \<noteq> 0" by simp
  have "?u \<le> x"
  proof (cases "emin \<le> binade x")
    case True
    then have "?u = pow2 (binade x - prec)" by (simp add: max_def)
    also have "\<dots> \<le> pow2 (binade x)" using prec by (intro pow2_mono) simp
    also have "\<dots> \<le> \<bar>x\<bar>" using x1 by (rule binade_bounds)
    finally show ?thesis using x0 by simp
  next
    case False
    then have "?u = pow2 (emin - prec)" by (simp add: max_def)
    then show ?thesis using x by simp
  qed
  then have "of_int 1 * ?u \<le> x" by simp
  with x1 have "of_int 1 * ?u \<le> round_float prec emin x" by (rule round_float_ge_multiple)
  then have "?u \<le> round_float prec emin x" by simp
  then show ?thesis using pow2_pos [of "max (binade x) emin - prec"] by linarith
qed

section \<open>Properties of the generic agent\<close>

lemma update_loop_step_times:
  "update_loop lstep k s =
     (case step_times lstep k (learner s, buffer s) of
        Inl e \<Rightarrow> Inl e
      | Inr (l', b') \<Rightarrow>
          Inr (s\<lparr>learner := l', buffer := b',
                 num_observations := (if 0 < k then 0 else num_observations s)\<rparr>))"
proof (induction k arbitrary: s)
  case 0
  show ?case by simp
next
  case (Suc k)
  show ?case
  proof (cases "lstep (learner s) (buffer s)")
    case (Inl e)
    then show ?thesis by simp
  next
    case (Inr lb)
    obtain l' b' where lb: "lb = (l', b')" by (cases lb)
    show ?thesis
      using Inr lb Suc.IH [of "s\<lparr>learner := l', buffer := b', num_observations := 0\<rparr>"]
      by (simp split: sum.splits prod.splits)
  qed
qed

lemma update_via_step_times:
  "calc_num_steps len_b s = Inr k \<Longrightarrow>
   update lstep len_b s =
     (case step_times lstep (nat k) (learner s, buffer s) of
        Inl e \<Rightarrow> Inl e
      | Inr (l', b') \<Rightarrow>
          Inr (s\<lparr>learner := l', buffer := b',
                 num_observations := (if 0 < k then 0 else num_observations s)\<rparr>, None))"
  by (simp add: update_def update_loop_step_times split: sum.splits prod.splits)

lemma counting_step_times: "step_times counting_step k (l, b) = Inr (l + k, b)"
  by (induction k arbitrary: l) (simp_all add: counting_step_def)

lemma calc_num_steps_positive_int:
  assumes "min_observations s \<le> int (len_b (buffer s))"
    and "observations_per_step s = Some (PyInt p)" and "0 < p"
    and "num_observations s < 2 ^ 53"
  shows "calc_num_steps len_b s = Inr (int (num_observations s) div p)"
  using assms int_truediv_floor [of "num_observations s" p]
  by (simp add: calc_num_steps_def)

lemma round_binary64_exact:
  assumes "x \<noteq> 0" and "binade x = e" and "- 1022 \<le> e" and "x = of_int m * pow2 (e - 52)"
  shows "round_binary64 x = x"
  unfolding round_binary64_def using assms by (intro round_float_exact [of x m]) simp_all

lemma to_binary64_exact:
  assumes "x \<noteq> 0" and "binade x = e" and "- 1022 \<le> e" and "x = of_int m * pow2 (e - 52)"
    and "\<bar>x\<bar> < 2 ^ 53"
  shows "to_binary64 x = Fin x"
proof -
  have r: "round_binary64 x = x" using assms(1-4) by (rule round_binary64_exact)
  have "- binary64_overflow < x" "x < binary64_overflow"
    using assms(5) binary64_overflow_ge by linarith+
  then show ?thesis using to_binary64_Fin [of x] by (simp add: r)
qed

text \<open>The binary64 quotients \<open>7 / -2\<close> and \<open>3 / 0.1\<close>, and the conversion of 3.\<close>

lemma binary64_minus_seven_halves: "to_binary64 (- (7 / 2)) = Fin (- (7 / 2))"
proof (rule to_binary64_exact [where e = 1 and m = "- 7 * 2 ^ 50"])
  show "binade (- (7 / 2)) = 1" by (rule binade_eqI) (simp_all add: pow2_def)
qed (simp_all add: pow2_def)

lemma binary64_three: "to_binary64 3 = Fin 3"
proof (rule to_binary64_exact [where e = 1 and m = "3 * 2 ^ 51"])
  show "binade 3 = 1" by (rule binade_eqI) (simp_all add: pow2_def)
qed (simp_all add: pow2_def)

lemma binary64_three_by_tenth:
  "to_binary64 (3 / (3602879701896397 / 36028797018963968)) = Fin 30"
proof -
  define x :: real where "x = 3 / (3602879701896397 / 36028797018963968)"
  have xn: "x \<noteq> 0" by (simp add: x_def)
  have b: "binade x = 4" by (rule binade_eqI) (simp_all add: pow2_def x_def)
  have u: "pow2 (max (binade x) (- 1022) - 52) = 1 / 2 ^ 48" by (simp add: b pow2_def)
  have "rint (x / (1 / 2 ^ 48)) = 8444249301319680"
    by (rule rint_nearest) (simp_all add: x_def)
  then have r: "round_binary64 x = 30"
    using xn by (simp add: round_binary64_def round_float_def Let_def u)
  have "(30::real) < 2 ^ 53" by simp
  then have "- binary64_overflow < round_binary64 x" "round_binary64 x < binary64_overflow"
    using binary64_overflow_ge unfolding r by linarith+
  then have "to_binary64 x = Fin (round_binary64 x)" by (rule to_binary64_Fin)
  then have "to_binary64 x = Fin 30" by (simp only: r)
  then show ?thesis unfolding x_def .
qed

text \<open>
  Claim C5, counterexample. On a warm buffer (5 items, \<open>min_observations = 5\<close>)
  \<open>_calc_num_steps\<close> does not return the floor of the quotient for every value of
  \<open>observations_per_step\<close>. For the \<open>int\<close> 0, the default of the constructor, the
  division raises \<open>ZeroDivisionError\<close>. For \<open>- 2\<close> and 7 observations the result is
  \<open>int(- 3.5) = - 3\<close> while the floor of the quotient is \<open>- 4\<close>. For the \<open>float\<close>
  \<open>0.1\<close> (the binary64 number \<open>3602879701896397 / 2^55\<close>) and 3 observations the
  quotient rounds to \<open>30.0\<close> and the result is 30, while the floor of the quotient is 29.
\<close>

theorem calc_num_steps_not_floor_counterexample:
  "calc_num_steps (\<lambda>b. b)
     \<lparr>actor = (), learner = (), buffer = 5, min_observations = 5,
      observations_per_step = Some (PyInt 0), num_observations = 7\<rparr>
   = Inl ZeroDivisionError \<and>
   calc_num_steps (\<lambda>b. b)
     \<lparr>actor = (), learner = (), buffer = 5, min_observations = 5,
      observations_per_step = Some (PyInt (- 2)), num_observations = 7\<rparr>
   = Inr (- 3) \<and>
   \<lfloor>7 / (- 2 :: real)\<rfloor> = - 4 \<and>
   calc_num_steps (\<lambda>b. b)
     \<lparr>actor = (), learner = (), buffer = 5, min_observations = 5,
      observations_per_step = Some (PyFloat (3602879701896397 / 36028797018963968)),
      num_observations = 3\<rparr>
   = Inr 30 \<and>
   \<lfloor>3 / (3602879701896397 / 36028797018963968 :: real)\<rfloor> = 29"
proof -
  have c: "\<lceil>- (7 / 2 :: real)\<rceil> = - 3" by linarith
  have f: "\<lfloor>7 / (- 2 :: real)\<rfloor> = - 4" by linarith
  have g: "\<lfloor>3 / (3602879701896397 / 36028797018963968 :: real)\<rfloor> = 29"
    by (simp add: floor_eq_iff)
  have 1: "calc_num_steps (\<lambda>b. b)
     \<lparr>actor = (), learner = (), buffer = 5, min_observations = 5,
      observations_per_step = Some (PyInt 0), num_observations = 7\<rparr>
   = Inl ZeroDivisionError"
    by (simp add: calc_num_steps_def)
  have 2: "calc_num_steps (\<lambda>b. b)
     \<lparr>actor = (), learner = (), buffer = 5, min_observations = 5,
      observations_per_step = Some (PyInt (- 2)), num_observations = 7\<rparr>
   = Inr (- 3)"
    using binary64_minus_seven_halves by (simp add: calc_num_steps_def c)
  have 3: "calc_num_steps (\<lambda>b. b)
     \<lparr>actor = (), learner = (), buffer = 5, min_observations = 5,
      observations_per_step = Some (PyFloat (3602879701896397 / 36028797018963968)),
      num_observations = 3\<rparr>
   = Inr 30"
    using binary64_three binary64_three_by_tenth by (simp add: calc_num_steps_def)
  show ?thesis by (intro conjI 1 2 3 f g)
qed

text \<open>
  Claim C5, amended. \<open>_calc_num_steps\<close> returns 0 whenever \<open>len(buffer)\<close> is below
  \<open>min_observations\<close>; on a warm buffer it returns 1 when \<open>observations_per_step\<close>
  is \<open>None\<close>, and \<open>floor(num_observations / observations_per_step)\<close> when
  \<open>observations_per_step\<close> is a positive \<open>int\<close> and fewer than \<open>2^53\<close>
  observations have been counted (the binary64 quotient then has the same integer part as
  the exact one).
\<close>

theorem calc_num_steps_amended:
  "(int (len_b (buffer s)) < min_observations s \<longrightarrow> calc_num_steps len_b s = Inr 0) \<and>
   (min_observations s \<le> int (len_b (buffer s)) \<and> observations_per_step s = None
      \<longrightarrow> calc_num_steps len_b s = Inr 1) \<and>
   (min_observations s \<le> int (len_b (buffer s)) \<and> observations_per_step s = Some (PyInt p)
      \<and> 0 < p \<and> num_observations s < 2 ^ 53
      \<longrightarrow> calc_num_steps len_b s = Inr \<lfloor>real (num_observations s) / real_of_int p\<rfloor>)"
proof -
  have "\<lfloor>real (num_observations s) / real_of_int p\<rfloor> = int (num_observations s) div p"
    using floor_divide_of_int_eq [of "int (num_observations s)" p, where ?'a = real] by simp
  then show ?thesis
    by (simp add: calc_num_steps_positive_int) (simp add: calc_num_steps_def)
qed

text \<open>
  Witness for C5: a cold buffer gives 0, an unset \<open>observations_per_step\<close> gives 1,
  and \<open>min_observations = 5\<close>, \<open>observations_per_step = 2\<close>, 7 observations on a
  warm buffer give 3.
\<close>

theorem calc_num_steps_amended_witness:
  "calc_num_steps (\<lambda>b. b)
     \<lparr>actor = (), learner = (), buffer = 4, min_observations = 5,
      observations_per_step = Some (PyInt 2), num_observations = 7\<rparr> = Inr 0 \<and>
   calc_num_steps (\<lambda>b. b)
     \<lparr>actor = (), learner = (), buffer = 5, min_observations = 5,
      observations_per_step = None, num_observations = 7\<rparr> = Inr 1 \<and>
   calc_num_steps (\<lambda>b. b)
     \<lparr>actor = (), learner = (), buffer = 5, min_observations = 5,
      observations_per_step = Some (PyInt 2), num_observations = 7\<rparr> = Inr 3"
proof -
  have f: "\<lfloor>(7::real) / 2\<rfloor> = 3" by linarith
  have b: "(7::nat) < 2 ^ 53" by simp
  show ?thesis
    using calc_num_steps_amended [of "\<lambda>b. b"
        "\<lparr>actor = (), learner = (), buffer = 4, min_observations = 5,
          observations_per_step = Some (PyInt 2), num_observations = 7\<rparr>" 2]
      calc_num_steps_amended [of "\<lambda>b. b"
        "\<lparr>actor = (), learner = (), buffer = 5, min_observations = 5,
          observations_per_step = None, num_observations = 7\<rparr>" 2]
      calc_num_steps_amended [of "\<lambda>b. b"
        "\<lparr>actor = (), learner = (), buffer = 5, min_observations = 5,
          observations_per_step = Some (PyInt 2), num_observations = 7\<rparr>" 2]
      f b
    by simp
qed

text \<open>
  Claim C6, counterexample. With \<open>min_observations = 5\<close>, \<open>observations_per_step = 2\<close>,
  5 items in the buffer and 7 observations, \<open>update\<close> calls the learner three times
  (the counting learner goes from 0 to 3) and resets the counter, but the value it returns
  is \<open>None\<close>, not the number 3 of steps performed.
\<close>

theorem update_returns_None_counterexample:
  "update counting_step (\<lambda>b. b)
     \<lparr>actor = (), learner = 0, buffer = 5, min_observations = 5,
      observations_per_step = Some (PyInt 2), num_observations = 7\<rparr>
   = Inr (\<lparr>actor = (), learner = 3, buffer = 5, min_observations = 5,
           observations_per_step = Some (PyInt 2), num_observations = 0\<rparr>, None) \<and>
   (None :: int option) \<noteq> Some 3"
proof -
  have f: "\<lfloor>(7::real) / 2\<rfloor> = 3" by linarith
  have k: "calc_num_steps (\<lambda>b. b)
     \<lparr>actor = (), learner = 0::nat, buffer = 5::nat, min_observations = 5,
      observations_per_step = Some (PyInt 2), num_observations = 7\<rparr> = Inr 3"
    by (simp add: calc_num_steps_positive_int)
  show ?thesis
    by (simp add: update_via_step_times [OF k] counting_step_times)
qed

text \<open>
  Claim C6, amended. When \<open>_calc_num_steps\<close> returns \<open>k\<close>, \<open>update\<close> calls
  \<open>learner.step(buffer)\<close> exactly \<open>k\<close> times in sequence (no call for \<open>k \<le> 0\<close>),
  sets the observation counter to 0 after each call, and returns \<open>None\<close>; an exception
  of a learner step is passed on.
\<close>

theorem update_steps_amended:
  assumes "calc_num_steps len_b s = Inr k"
  shows "update lstep len_b s =
     (case step_times lstep (nat k) (learner s, buffer s) of
        Inl e \<Rightarrow> Inl e
      | Inr (l', b') \<Rightarrow>
          Inr (s\<lparr>learner := l', buffer := b',
                 num_observations := (if 0 < k then 0 else num_observations s)\<rparr>, None))"
  using assms by (rule update_via_step_times)

theorem update_steps_amended_witness:
  "calc_num_steps (\<lambda>b. b)
     \<lparr>actor = (), learner = 0::nat, buffer = 5::nat, min_observations = 5,
      observations_per_step = Some (PyInt 2), num_observations = 7\<rparr> = Inr 3 \<and>
   update counting_step (\<lambda>b. b)
     \<lparr>actor = (), learner = 0, buffer = 5, min_observations = 5,
      observations_per_step = Some (PyInt 2), num_observations = 7\<rparr>
   = Inr (\<lparr>actor = (), learner = 3, buffer = 5, min_observations = 5,
           observations_per_step = Some (PyInt 2), num_observations = 0\<rparr>, None)"
proof -
  have f: "\<lfloor>(7::real) / 2\<rfloor> = 3" by linarith
  have k: "calc_num_steps (\<lambda>b. b)
     \<lparr>actor = (), learner = 0::nat, buffer = 5::nat, min_observations = 5,
      observations_per_step = Some (PyInt 2), num_observations = 7\<rparr> = Inr 3"
    by (simp add: calc_num_steps_positive_int)
  show ?thesis
    using k update_steps_amended [OF k, of counting_step]
    by (simp add: counting_step_times)
qed

text \<open>
  Claim C10. An agent holds the constructor's default \<open>observations_per_step = 0\<close>.
  Once \<open>len(buffer) \<ge> min_observations\<close>, \<open>_calc_num_steps\<close> passes the test against
  \<open>None\<close> and divides by zero, so \<open>update\<close> raises \<open>ZeroDivisionError\<close> (before any
  learner step).
\<close>

theorem update_default_zero_division:
  assumes "observations_per_step s = default_observations_per_step"
    and "min_observations s \<le> int (len_b (buffer s))"
  shows "calc_num_steps len_b s = Inl ZeroDivisionError \<and>
         update lstep len_b s = Inl ZeroDivisionError"
  using assms
  by (simp add: update_def calc_num_steps_def default_observations_per_step_def)

theorem update_default_zero_division_witness:
  "observations_per_step
     (Agent_init () (0::nat) (3::nat) default_min_observations default_observations_per_step)
     = default_observations_per_step \<and>
   min_observations
     (Agent_init () (0::nat) (3::nat) default_min_observations default_observations_per_step)
     \<le> int 3 \<and>
   update counting_step (\<lambda>b. b)
     (Agent_init () 0 3 default_min_observations default_observations_per_step)
     = Inl ZeroDivisionError"
  using update_default_zero_division [of
      "Agent_init () (0::nat) (3::nat) default_min_observations default_observations_per_step"
      "\<lambda>b. b" counting_step]
  by (simp add: Agent_init_def default_min_observations_def)

section \<open>Properties of the DQN agent\<close>

lemma np_round_saturates:
  assumes "1000000 \<le> t"
  shows "min (9 / 10) (np_round (real t / 1000000) 1) = 9 / 10"
proof -
  have "(10::real) \<le> real t / 1000000 * 10" using assms by simp
  then have "10 \<le> \<lfloor>real t / 1000000 * 10\<rfloor>" by (simp add: le_floor_iff)
  then have "10 \<le> rint (real t / 1000000 * 10)"
    using rint_ge_floor [of "real t / 1000000 * 10"] by linarith
  then have "(10::real) \<le> of_int (rint (real t / 1000000 * 10))" by linarith
  then have "(1::real) \<le> np_round (real t / 1000000) 1"
    by (simp add: np_round_def)
  then show ?thesis by simp
qed

lemma np_round_zero: "np_round (real 0 / 1000000) 1 = 0"
  using rint_of_int [of 0] by (simp add: np_round_def)

lemma np_round_half_million: "np_round (real 500000 / 1000000) 1 = 1 / 2"
  using rint_of_int [of 5] by (simp add: np_round_def)

lemma dqn_update_fires:
  assumes "priv_buffer s = Some b" and "priv_learner s = Some l" and "priv_actor s = Some a"
    and "min_experiences s \<le> int (len_b b)" and "Q_update_every s \<le> int (n_new s)"
    and "lstep l b = Inr (l', b')"
  shows "fst (dqn_update lstep qnet len_b s) =
           s\<lparr>priv_actor := Some (a\<lparr>actor_Qnetwork := qnet l',
                 actor_epsilon :=
                   1 - min (9 / 10) (np_round (real (total_experiences s) / 1000000) 1)\<rparr>),
             priv_learner := Some l', priv_buffer := Some b', n_new := 0\<rparr>"
  using assms by (simp add: dqn_update_def Let_def)

lemma example_dqn_agent_fields:
  "priv_buffer (example_dqn_agent t) = Some 4"
  "priv_learner (example_dqn_agent t) = Some 0"
  "priv_actor (example_dqn_agent t) = Some \<lparr>actor_Qnetwork = 0, actor_epsilon = 1\<rparr>"
  "min_experiences (example_dqn_agent t) = 2"
  "Q_update_every (example_dqn_agent t) = 1"
  "n_new (example_dqn_agent t) = 1"
  "total_experiences (example_dqn_agent t) = t"
  by (simp_all add: example_dqn_agent_def DQNAgent_init_def agent.defs dqn_agent.defs
      Agent_init_def)

text \<open>
  Claim C7, counterexample. An update fires on an agent with 500000 lifetime experiences:
  the new \<open>epsilon\<close> of the actor is \<open>1 - round(0.5, 1) = 0.5\<close>, which is 0.05 away
  from the claimed 0.55.
\<close>

theorem dqn_epsilon_half_million_counterexample:
  "map_option actor_epsilon
     (priv_actor (fst (dqn_update counting_step (\<lambda>l. l) (\<lambda>b. b) (example_dqn_agent 500000))))
   = Some (1 / 2) \<and> \<bar>(1 / 2 :: real) - 55 / 100\<bar> = 1 / 20"
proof -
  have "fst (dqn_update counting_step (\<lambda>l. l) (\<lambda>b. b) (example_dqn_agent 500000)) =
      (example_dqn_agent 500000)\<lparr>priv_actor :=
          Some (\<lparr>actor_Qnetwork = 0, actor_epsilon = 1\<rparr>\<lparr>actor_Qnetwork := Suc 0,
             actor_epsilon := 1 - min (9 / 10)
               (np_round (real (total_experiences (example_dqn_agent 500000)) / 1000000) 1)\<rparr>),
        priv_learner := Some (Suc 0), priv_buffer := Some 4, n_new := 0\<rparr>"
    by (rule dqn_update_fires [where b = 4 and l = 0])
      (simp_all add: example_dqn_agent_fields counting_step_def)
  then show ?thesis
    using np_round_half_million by (simp add: example_dqn_agent_fields)
qed

text \<open>
  Claim C7, amended. When an update fires (the attributes \<open>_buffer\<close>, \<open>_learner\<close> and
  \<open>_actor\<close> exist, both gates pass and the learner step returns), the actor's
  \<open>epsilon\<close> is set to \<open>1.0 - min(0.9, round(total_experiences / 1_000_000, 1))\<close>.
  This is 1 for \<open>total_experiences = 0\<close>, 0.5 for \<open>total_experiences = 500_000\<close> and
  0.1 for every \<open>total_experiences \<ge> 1_000_000\<close>.
\<close>

theorem dqn_update_epsilon:
  assumes "priv_buffer s = Some b" and "priv_learner s = Some l" and "priv_actor s = Some a"
    and "min_experiences s \<le> int (len_b b)" and "Q_update_every s \<le> int (n_new s)"
    and "lstep l b = Inr (l', b')"
  shows "\<exists>a'. priv_actor (fst (dqn_update lstep qnet len_b s)) = Some a' \<and>
           actor_epsilon a' =
             1 - min (9 / 10) (np_round (real (total_experiences s) / 1000000) 1) \<and>
           (total_experiences s = 0 \<longrightarrow> actor_epsilon a' = 1) \<and>
           (total_experiences s = 500000 \<longrightarrow> actor_epsilon a' = 1 / 2) \<and>
           (1000000 \<le> total_experiences s \<longrightarrow> actor_epsilon a' = 1 / 10)"
proof -
  let ?e = "1 - min (9 / 10) (np_round (real (total_experiences s) / 1000000) 1)"
  have "priv_actor (fst (dqn_update lstep qnet len_b s)) =
          Some (a\<lparr>actor_Qnetwork := qnet l', actor_epsilon := ?e\<rparr>)"
    using assms by (simp add: dqn_update_fires [where b = b and l = l and a = a and l' = l' and b' = b'])
  moreover have "total_experiences s = 0 \<longrightarrow> ?e = 1"
    using np_round_zero by simp
  moreover have "total_experiences s = 500000 \<longrightarrow> ?e = 1 / 2"
    using np_round_half_million by simp
  moreover have "1000000 \<le> total_experiences s \<longrightarrow> ?e = 1 / 10"
    using np_round_saturates [of "total_experiences s"] by simp
  ultimately show ?thesis by simp
qed

theorem dqn_update_epsilon_witness:
  "map_option actor_epsilon
     (priv_actor (fst (dqn_update counting_step (\<lambda>l. l) (\<lambda>b. b) (example_dqn_agent 0))))
     = Some 1 \<and>
   map_option actor_epsilon
     (priv_actor (fst (dqn_update counting_step (\<lambda>l. l) (\<lambda>b. b) (example_dqn_agent 500000))))
     = Some (1 / 2) \<and>
   map_option actor_epsilon
     (priv_actor (fst (dqn_update counting_step (\<lambda>l. l) (\<lambda>b. b) (example_dqn_agent 2000000))))
     = Some (1 / 10)"
proof -
  have w: "\<exists>a'. priv_actor (fst (dqn_update counting_step (\<lambda>l. l) (\<lambda>b. b)
                    (example_dqn_agent t))) = Some a' \<and>
           actor_epsilon a' = 1 - min (9 / 10) (np_round (real t / 1000000) 1) \<and>
           (t = 0 \<longrightarrow> actor_epsilon a' = 1) \<and>
           (t = 500000 \<longrightarrow> actor_epsilon a' = 1 / 2) \<and>
           (1000000 \<le> t \<longrightarrow> actor_epsilon a' = 1 / 10)" for t
    using dqn_update_epsilon [of "example_dqn_agent t" 4 0
        "\<lparr>actor_Qnetwork = 0, actor_epsilon = 1\<rparr>" "\<lambda>b. b" counting_step "Suc 0" 4 "\<lambda>l. l"]
    by (simp add: example_dqn_agent_fields counting_step_def)
  show ?thesis
    using w [of 0] w [of 500000] w [of 2000000] by auto
qed

text \<open>
  Claim C9. The constructor binds the collaborators to \<open>actor\<close>, \<open>learner\<close> and
  \<open>buffer\<close> and never assigns \<open>_actor\<close>, \<open>_learner\<close> or \<open>_buffer\<close>. On a
  constructed agent, \<open>observe\<close> and \<open>update\<close> raise \<open>AttributeError\<close> at their
  first statement and leave the agent as it was, so every later call fails in the same way.
\<close>

theorem dqn_constructed_agent_fails:
  "actor (DQNAgent_init a l b me que lg) = a \<and>
   learner (DQNAgent_init a l b me que lg) = l \<and>
   buffer (DQNAgent_init a l b me que lg) = b \<and>
   priv_actor (DQNAgent_init a l b me que lg) = None \<and>
   priv_learner (DQNAgent_init a l b me que lg) = None \<and>
   priv_buffer (DQNAgent_init a l b me que lg) = None \<and>
   dqn_observe actor_observe is_last (DQNAgent_init a l b me que lg)
     = (DQNAgent_init a l b me que lg, Inl AttributeError) \<and>
   dqn_update lstep qnet len_b (DQNAgent_init a l b me que lg)
     = (DQNAgent_init a l b me que lg, Inl AttributeError)"
  by (simp add: dqn_observe_def dqn_update_def DQNAgent_init_def Agent_init_def
      agent.defs dqn_agent.defs)

section \<open>Shapes and entries of tensors\<close>

lemma has_shape_nrows: "has_shape A r c \<Longrightarrow> nrows A = r"
  by (simp add: has_shape_def nrows_def)

lemma has_shape_length: "has_shape A r c \<Longrightarrow> length A = r"
  by (simp add: has_shape_def)

lemma has_shape_row: "has_shape A r c \<Longrightarrow> i < r \<Longrightarrow> length (A ! i) = c"
  by (simp add: has_shape_def list_all_length)

lemma has_shape_ncols: "has_shape A r c \<Longrightarrow> 0 < r \<Longrightarrow> ncols A = c"
  by (cases A) (simp_all add: has_shape_def ncols_def)

lemma length_tab2 [simp]: "length (tab2 r c f) = r"
  by (simp add: tab2_def)

lemma nth_tab2 [simp]: "i < r \<Longrightarrow> j < c \<Longrightarrow> tab2 r c f ! i ! j = f i j"
  by (simp add: tab2_def)

lemma has_shape_tab2 [simp]: "has_shape (tab2 r c f) r c"
  by (simp add: has_shape_def tab2_def list_all_length)

lemma tab2_cong:
  "(\<And>i j. i < r \<Longrightarrow> j < c \<Longrightarrow> f i j = g i j) \<Longrightarrow> tab2 r c f = tab2 r c g"
  by (simp add: tab2_def)

lemma tab2_no_rows [simp]: "tab2 0 c f = []"
  by (simp add: tab2_def)

lemma bcast_dim_same [simp]: "bcast_dim n n = Some n"
  by (simp add: bcast_dim_def)

lemma bcast_dim_one [simp]: "bcast_dim n (Suc 0) = Some n"
  by (simp add: bcast_dim_def)

lemma bget2_in_range:
  assumes "has_shape A r c" and "i < r" and "j < c"
  shows "bget2 A i j = A ! i ! j"
proof -
  have "nrows A = r" using assms(1) by (rule has_shape_nrows)
  moreover have "ncols A = c" using assms by (simp add: has_shape_ncols)
  ultimately show ?thesis using assms(2,3) by (auto simp: bget2_def)
qed

lemma ew2_same_shape:
  assumes "has_shape A r c" and "has_shape B r c"
  shows "ew2 f A B = Inr (tab2 r c (\<lambda>i j. f (A ! i ! j) (B ! i ! j)))"
proof (cases "r = 0")
  case True
  then have "A = []" and "B = []" using assms by (simp_all add: has_shape_def)
  then show ?thesis using True by (simp add: ew2_def nrows_def ncols_def)
next
  case False
  then have r: "0 < r" by simp
  have "nrows A = r" "nrows B = r" "ncols A = c" "ncols B = c"
    using assms r by (simp_all add: has_shape_nrows has_shape_ncols)
  moreover have "tab2 r c (\<lambda>i j. f (bget2 A i j) (bget2 B i j)) =
      tab2 r c (\<lambda>i j. f (A ! i ! j) (B ! i ! j))"
    by (rule tab2_cong) (simp add: bget2_in_range [OF assms(1)] bget2_in_range [OF assms(2)])
  ultimately show ?thesis by (simp add: ew2_def)
qed

lemma ew1_same_length:
  assumes "length u = n" and "length v = n"
  shows "ew1 f u v = Inr (map (\<lambda>j. f (u ! j) (v ! j)) [0..<n])"
  using assms by (auto simp: ew1_def bget1_def)

lemma ew1_scalar: "ew1 f u [x] = Inr (map (\<lambda>j. f (u ! j) x) [0..<length u])"
  by (auto simp: ew1_def bget1_def)

lemma has_shape_mask_tensor: "has_shape masks r c \<Longrightarrow> has_shape (mask_tensor masks) r c"
  by (simp add: has_shape_def mask_tensor_def list_all_length)

lemma nth_mask_tensor:
  "has_shape masks r c \<Longrightarrow> i < r \<Longrightarrow> j < c \<Longrightarrow> mask_tensor masks ! i ! j = of_bool (masks ! i ! j)"
  by (simp add: has_shape_def mask_tensor_def list_all_length)

lemma has_shape_ones_like: "has_shape A r c \<Longrightarrow> has_shape (ones_like A) r c"
  by (simp add: has_shape_def ones_like_def list_all_length)

lemma nth_ones_like:
  "has_shape A r c \<Longrightarrow> i < r \<Longrightarrow> j < c \<Longrightarrow> ones_like A ! i ! j = 1"
  by (simp add: has_shape_def ones_like_def list_all_length)

lemma sum_dim0_shape:
  assumes "has_shape A r c" and "0 < r"
  shows "sum_dim0 A = map (\<lambda>j. \<Sum>i\<leftarrow>[0..<r]. A ! i ! j) [0..<c]"
  using assms by (simp add: sum_dim0_def has_shape_nrows has_shape_ncols)

lemma sum_list_upt_sum: "(\<Sum>k\<leftarrow>[0..<n]. f k) = (\<Sum>k<n. f k)"
  by (simp add: interv_sum_list_conv_sum_set_nat atLeast0LessThan)

section \<open>Properties of the policy-gradient learner\<close>

lemma has_shape_toeplitz: "has_shape (toeplitz g T) T T"
  by (auto simp: has_shape_def toeplitz_def list_all_length)

lemma nth_toeplitz:
  assumes "k < T" and "t < T"
  shows "toeplitz g T ! k ! t = (if t \<le> k then g ^ (k - t) else 0)"
proof (cases "t \<le> k")
  case True
  then have "rev [0..<Suc k] ! t = k - t"
    by (simp add: rev_nth del: upt_Suc)
  then show ?thesis using assms True
    by (simp add: toeplitz_def nth_append del: upt_Suc)
next
  case False
  then show ?thesis using assms
    by (simp add: toeplitz_def nth_append del: upt_Suc)
qed

lemma ncols_toeplitz: "ncols (toeplitz g T) = T"
proof (cases "T = 0")
  case True
  then show ?thesis by (simp add: toeplitz_def ncols_def)
next
  case False
  then show ?thesis using has_shape_ncols [OF has_shape_toeplitz, of T g] by simp
qed

lemma nrows_toeplitz: "nrows (toeplitz g T) = T"
  by (simp add: has_shape_nrows [OF has_shape_toeplitz])

lemma toeplitz_column_sum:
  assumes "t < T"
  shows "(\<Sum>k\<leftarrow>[0..<T]. r k * toeplitz g T ! k ! t) = (\<Sum>k = t..<T. g ^ (k - t) * r k)"
proof -
  have "(\<Sum>k\<leftarrow>[0..<T]. r k * toeplitz g T ! k ! t) = (\<Sum>k<T. r k * toeplitz g T ! k ! t)"
    by (rule sum_list_upt_sum)
  also have "\<dots> = (\<Sum>k<T. if t \<le> k then g ^ (k - t) * r k else 0)"
    by (rule sum.cong) (simp_all add: nth_toeplitz assms)
  also have "\<dots> = (\<Sum>k \<in> {k \<in> {..<T}. t \<le> k}. g ^ (k - t) * r k)"
    using sum.inter_filter [of "{..<T}" "\<lambda>k. g ^ (k - t) * r k" "\<lambda>k. t \<le> k"] by simp
  also have "{k \<in> {..<T}. t \<le> k} = {t..<T}" by auto
  finally show ?thesis .
qed

lemma matmul_toeplitz:
  assumes "has_shape rewards b T" and "0 < b"
  shows "matmul rewards (toeplitz g (ncols rewards)) =
     Inr (tab2 b T (\<lambda>i t. \<Sum>k = t..<T. g ^ (k - t) * rewards ! i ! k))"
proof -
  have c: "ncols rewards = T" using assms by (rule has_shape_ncols)
  have r: "nrows rewards = b" using assms(1) by (rule has_shape_nrows)
  have "tab2 b T (\<lambda>i c. \<Sum>k\<leftarrow>[0..<T]. rewards ! i ! k * toeplitz g T ! k ! c) =
        tab2 b T (\<lambda>i t. \<Sum>k = t..<T. g ^ (k - t) * rewards ! i ! k)"
    by (rule tab2_cong) (simp add: toeplitz_column_sum)
  then show ?thesis
    by (simp add: matmul_def c r ncols_toeplitz nrows_toeplitz)
qed

lemma reward_to_go_sum: "reward_to_go g xs = (\<Sum>k<length xs. g ^ k * xs ! k)"
proof (induction xs)
  case Nil
  show ?case by simp
next
  case (Cons x xs)
  have "(\<Sum>k<length (x # xs). g ^ k * (x # xs) ! k) = x + (\<Sum>k<length xs. g ^ Suc k * xs ! k)"
    by (simp add: sum.lessThan_Suc_shift del: sum.lessThan_Suc)
  also have "(\<Sum>k<length xs. g ^ Suc k * xs ! k) = g * (\<Sum>k<length xs. g ^ k * xs ! k)"
    by (simp add: sum_distrib_left mult.assoc)
  finally show ?case using Cons.IH by simp
qed

lemma reward_to_go_drop:
  assumes "t \<le> length r"
  shows "reward_to_go g (drop t r) = (\<Sum>k = t..<length r. g ^ (k - t) * r ! k)"
proof -
  have "reward_to_go g (drop t r) = (\<Sum>k<length r - t. g ^ k * r ! (t + k))"
    by (simp add: reward_to_go_sum)
  also have "\<dots> = (\<Sum>k = t..<length r. g ^ (k - t) * r ! k)"
    by (rule sum.reindex_bij_witness [where i = "\<lambda>k. k - t" and j = "\<lambda>k. t + k"]) auto
  finally show ?thesis .
qed

lemma dcr_value:
  assumes "has_shape rewards b T" and "has_shape m b T" and "0 < b"
  shows "bindE (matmul rewards (toeplitz g (ncols rewards))) (\<lambda>dr. ew2 (*) dr m) =
    Inr (tab2 b T (\<lambda>i t. (\<Sum>k = t..<T. g ^ (k - t) * rewards ! i ! k) * m ! i ! t))"
proof -
  have "ew2 (*) (tab2 b T (\<lambda>i t. \<Sum>k = t..<T. g ^ (k - t) * rewards ! i ! k)) m =
     Inr (tab2 b T (\<lambda>i t. tab2 b T (\<lambda>i t. \<Sum>k = t..<T. g ^ (k - t) * rewards ! i ! k) ! i ! t * m ! i ! t))"
    by (rule ew2_same_shape) (simp_all add: assms)
  also have "tab2 b T (\<lambda>i t. tab2 b T (\<lambda>i t. \<Sum>k = t..<T. g ^ (k - t) * rewards ! i ! k) ! i ! t * m ! i ! t)
     = tab2 b T (\<lambda>i t. (\<Sum>k = t..<T. g ^ (k - t) * rewards ! i ! k) * m ! i ! t)"
    by (rule tab2_cong) simp
  finally show ?thesis by (simp add: matmul_toeplitz [OF assms(1,3)])
qed

text \<open>
  Claim C1. For rewards and masks of shape \<open>(b, T)\<close>, a row \<open>i\<close>, a column \<open>t\<close>
  and any discount \<open>g\<close>: \<open>_discounted_cumulative_returns\<close> returns a tensor whose
  entry at \<open>(i, t)\<close> is the sum over \<open>k = t, ..., T - 1\<close> of
  \<open>g ^ (k - t) * rewards[i, k]\<close> where the mask is set and 0 at a padded position; without
  masks the entry is that sum, which is the reward-to-go of the rest of the row computed by
  direct recursion.
\<close>

theorem discounted_cumulative_returns_reward_to_go:
  assumes "has_shape rewards b T" and "has_shape masks b T" and "i < b" and "t < T"
  shows "\<exists>R R1. discounted_cumulative_returns rewards (Some masks) g = Inr R \<and>
           R ! i ! t = (if masks ! i ! t then (\<Sum>k = t..<T. g ^ (k - t) * rewards ! i ! k) else 0) \<and>
           discounted_cumulative_returns rewards None g = Inr R1 \<and>
           R1 ! i ! t = (\<Sum>k = t..<T. g ^ (k - t) * rewards ! i ! k) \<and>
           R1 ! i ! t = reward_to_go g (drop t (rewards ! i))"
proof -
  have b: "0 < b" using assms(3) by simp
  have len: "length (rewards ! i) = T" using assms(1,3) by (rule has_shape_row)
  let ?S = "\<lambda>i t. \<Sum>k = t..<T. g ^ (k - t) * rewards ! i ! k"
  have 1: "discounted_cumulative_returns rewards (Some masks) g =
      Inr (tab2 b T (\<lambda>i t. ?S i t * mask_tensor masks ! i ! t))"
    using dcr_value [OF assms(1) has_shape_mask_tensor [OF assms(2)] b]
    by (simp add: discounted_cumulative_returns_def)
  have 2: "discounted_cumulative_returns rewards None g =
      Inr (tab2 b T (\<lambda>i t. ?S i t * ones_like rewards ! i ! t))"
    using dcr_value [OF assms(1) has_shape_ones_like [OF assms(1)] b]
    by (simp add: discounted_cumulative_returns_def)
  have 3: "reward_to_go g (drop t (rewards ! i)) = ?S i t"
    using reward_to_go_drop [of t "rewards ! i" g] assms(4) len by simp
  show ?thesis
    using 1 2 3 assms
    by (simp add: nth_mask_tensor [OF assms(2)] nth_ones_like [OF assms(1)])
qed

theorem discounted_cumulative_returns_reward_to_go_witness:
  "has_shape [[1, 2, 3], [4, 5, 6 :: real]] 2 3 \<and>
   has_shape [[True, True, False], [True, False, False]] 2 3 \<and>
   (\<exists>R R1. discounted_cumulative_returns [[1, 2, 3], [4, 5, 6]]
              (Some [[True, True, False], [True, False, False]]) (1 / 2) = Inr R \<and>
           R ! 0 ! 1 = 7 / 2 \<and>
           discounted_cumulative_returns [[1, 2, 3], [4, 5, 6]] None (1 / 2) = Inr R1 \<and>
           R1 ! 0 ! 1 = 7 / 2 \<and>
           R1 ! 0 ! 1 = reward_to_go (1 / 2) [2, 3])"
proof -
  let ?rw = "[[1, 2, 3], [4, 5, 6 :: real]]"
  let ?mk = "[[True, True, False], [True, False, False]]"
  have h1: "has_shape ?rw 2 3"
    by (simp add: has_shape_def)
  have h2: "has_shape ?mk 2 3"
    by (simp add: has_shape_def)
  have p1: "(0::nat) < 2" and p2: "(1::nat) < 3"
    by simp_all
  have s: "(\<Sum>k = 1..<3. (1 / 2 :: real) ^ (k - 1) * ?rw ! 0 ! k) = 7 / 2"
    by (simp add: sum.atLeast_Suc_lessThan numeral_3_eq_3)
  from discounted_cumulative_returns_reward_to_go [OF h1 h2 p1 p2, of "1 / 2"]
  obtain R R1 where
    a: "discounted_cumulative_returns ?rw (Some ?mk) (1 / 2) = Inr R" and
    b: "R ! 0 ! 1 = (if ?mk ! 0 ! 1 then (\<Sum>k = 1..<3. (1 / 2) ^ (k - 1) * ?rw ! 0 ! k) else 0)" and
    c: "discounted_cumulative_returns ?rw None (1 / 2) = Inr R1" and
    d: "R1 ! 0 ! 1 = (\<Sum>k = 1..<3. (1 / 2) ^ (k - 1) * ?rw ! 0 ! k)" and
    e: "R1 ! 0 ! 1 = reward_to_go (1 / 2) (drop 1 (?rw ! 0))"
    by (elim exE conjE)
  have b': "R ! 0 ! 1 = 7 / 2" using b s by simp
  have d': "R1 ! 0 ! 1 = 7 / 2" using d s by simp
  have e': "R1 ! 0 ! 1 = reward_to_go (1 / 2) [2, 3]" using e by simp
  have ex: "\<exists>R R1. discounted_cumulative_returns ?rw (Some ?mk) (1 / 2) = Inr R \<and>
           R ! 0 ! 1 = 7 / 2 \<and>
           discounted_cumulative_returns ?rw None (1 / 2) = Inr R1 \<and>
           R1 ! 0 ! 1 = 7 / 2 \<and>
           R1 ! 0 ! 1 = reward_to_go (1 / 2) [2, 3]"
    by (intro exI conjI) (rule a b' c d' e')+
  show ?thesis by (intro conjI h1 h2 ex)
qed

lemma has_shape_tile_rows: "length v = c \<Longrightarrow> has_shape (tile_rows v r) r c"
  by (simp add: has_shape_def tile_rows_def list_all_length)

lemma nth_tile_rows: "i < r \<Longrightarrow> tile_rows v r ! i = v"
  by (simp add: tile_rows_def)

lemma has_shape_map_map: "has_shape A r c \<Longrightarrow> has_shape (map (map f) A) r c"
  by (simp add: has_shape_def list_all_length)

lemma normalized_returns_core:
  assumes ret: "has_shape returns b T" and hm: "has_shape m b T" and b: "0 < b"
  shows "bindE (ew2 (*) m returns) (\<lambda>mr.
         bindE (ew1 max (sum_dim0 m) [1]) (\<lambda>cnt.
         bindE (ew1 (/) (sum_dim0 mr) cnt) (\<lambda>means.
         bindE (ew2 (*) m (tile_rows means (nrows returns))) (\<lambda>masked_means.
         bindE (ew2 (-) mr masked_means) (\<lambda>centred.
         bindE (ew1 (/) (sum_dim0 (map (map (\<lambda>x. x\<^sup>2)) centred)) cnt) (\<lambda>masked_vars.
         bindE (ew1 max (map sqrt masked_vars) [float32_eps]) (\<lambda>masked_stds.
           Inr centred)))))))
     = Inr (tab2 b T (\<lambda>i j. m ! i ! j * returns ! i ! j
              - m ! i ! j * ((\<Sum>k<b. m ! k ! j * returns ! k ! j) / max (\<Sum>k<b. m ! k ! j) 1)))"
proof -
  let ?mr = "tab2 b T (\<lambda>i j. m ! i ! j * returns ! i ! j)"
  let ?cnt = "map (\<lambda>j. max (\<Sum>k<b. m ! k ! j) 1) [0..<T]"
  let ?means = "map (\<lambda>j. (\<Sum>k<b. m ! k ! j * returns ! k ! j) / max (\<Sum>k<b. m ! k ! j) 1) [0..<T]"
  let ?mm = "tab2 b T (\<lambda>i j. m ! i ! j * ?means ! j)"
  let ?ce = "tab2 b T (\<lambda>i j. m ! i ! j * returns ! i ! j
              - m ! i ! j * ((\<Sum>k<b. m ! k ! j * returns ! k ! j) / max (\<Sum>k<b. m ! k ! j) 1))"
  have nr: "nrows returns = b" using ret by (rule has_shape_nrows)
  have e1: "ew2 (*) m returns = Inr ?mr"
    using hm ret by (rule ew2_same_shape)
  have sm: "sum_dim0 m = map (\<lambda>j. \<Sum>k<b. m ! k ! j) [0..<T]"
    by (simp add: sum_dim0_shape [OF hm b] sum_list_upt_sum)
  have e2: "ew1 max (sum_dim0 m) [1] = Inr ?cnt"
    by (simp add: ew1_scalar sm)
  have smr: "sum_dim0 ?mr = map (\<lambda>j. \<Sum>k<b. m ! k ! j * returns ! k ! j) [0..<T]"
    by (simp add: sum_dim0_shape [OF has_shape_tab2 b] sum_list_upt_sum)
  have e3: "ew1 (/) (sum_dim0 ?mr) ?cnt = Inr ?means"
    by (simp add: smr ew1_same_length [where n = T])
  have e4: "ew2 (*) m (tile_rows ?means b) = Inr ?mm"
  proof -
    have "ew2 (*) m (tile_rows ?means b) =
        Inr (tab2 b T (\<lambda>i j. m ! i ! j * tile_rows ?means b ! i ! j))"
      by (rule ew2_same_shape [OF hm]) (simp add: has_shape_tile_rows)
    also have "tab2 b T (\<lambda>i j. m ! i ! j * tile_rows ?means b ! i ! j) = ?mm"
      by (rule tab2_cong) (simp add: nth_tile_rows)
    finally show ?thesis .
  qed
  have e5: "ew2 (-) ?mr ?mm = Inr ?ce"
  proof -
    have "ew2 (-) ?mr ?mm = Inr (tab2 b T (\<lambda>i j. ?mr ! i ! j - ?mm ! i ! j))"
      by (rule ew2_same_shape) simp_all
    also have "tab2 b T (\<lambda>i j. ?mr ! i ! j - ?mm ! i ! j) = ?ce"
      by (rule tab2_cong) simp
    finally show ?thesis .
  qed
  have len6: "length (sum_dim0 (map (map (\<lambda>x. x\<^sup>2)) ?ce)) = T"
    by (simp add: sum_dim0_shape [OF has_shape_map_map [OF has_shape_tab2] b])
  have e6: "\<exists>vs. ew1 (/) (sum_dim0 (map (map (\<lambda>x. x\<^sup>2)) ?ce)) ?cnt = Inr vs"
    using len6 by (simp add: ew1_same_length [where n = T])
  then obtain vs where e6': "ew1 (/) (sum_dim0 (map (map (\<lambda>x. x\<^sup>2)) ?ce)) ?cnt = Inr vs" ..
  obtain ss where e7: "ew1 max (map sqrt vs) [float32_eps] = Inr ss"
    by (simp add: ew1_scalar)
  show ?thesis
    by (simp only: nr e1 e2 e3 e4 e5 e6' e7 bindE_Inr)
qed

lemma sum_of_bool_times:
  fixes f :: "nat \<Rightarrow> real"
  shows "(\<Sum>k<b. of_bool (P k) * f k) = (\<Sum>k | k < b \<and> P k. f k)"
proof -
  have "(\<Sum>k<b. of_bool (P k) * f k) = (\<Sum>k<b. if P k then f k else 0)"
    by (rule sum.cong) simp_all
  also have "\<dots> = (\<Sum>k \<in> {k \<in> {..<b}. P k}. f k)"
    by (rule sum.inter_filter [symmetric]) simp
  finally show ?thesis by simp
qed

lemma sum_of_bool_card:
  "(\<Sum>k<(b::nat). of_bool (P k) :: real) = real (card {k. k < b \<and> P k})"
  using sum_of_bool_times [where b = b and P = P and f = "\<lambda>k. 1"] by simp

lemma normalized_returns_value:
  assumes ret: "has_shape returns b T" and mk: "has_shape masks b T" and b: "0 < b"
  shows "normalized_returns returns (Some masks) =
     Inr (tab2 b T (\<lambda>i j. of_bool (masks ! i ! j) * returns ! i ! j
            - of_bool (masks ! i ! j)
              * ((\<Sum>k | k < b \<and> masks ! k ! j. returns ! k ! j)
                  / max (real (card {k. k < b \<and> masks ! k ! j})) 1)))"
proof -
  let ?m = "mask_tensor masks"
  have hm: "has_shape ?m b T" using mk by (rule has_shape_mask_tensor)
  have "tab2 b T (\<lambda>i j. ?m ! i ! j * returns ! i ! j
              - ?m ! i ! j * ((\<Sum>k<b. ?m ! k ! j * returns ! k ! j) / max (\<Sum>k<b. ?m ! k ! j) 1))
      = tab2 b T (\<lambda>i j. of_bool (masks ! i ! j) * returns ! i ! j
            - of_bool (masks ! i ! j)
              * ((\<Sum>k | k < b \<and> masks ! k ! j. returns ! k ! j)
                  / max (real (card {k. k < b \<and> masks ! k ! j})) 1))"
  proof (rule tab2_cong)
    fix i j assume i: "i < b" and j: "j < T"
    have 1: "(\<Sum>k<b. ?m ! k ! j * returns ! k ! j)
        = (\<Sum>k<b. of_bool (masks ! k ! j) * returns ! k ! j)"
      by (rule sum.cong) (simp_all add: nth_mask_tensor [OF mk] j)
    have 2: "(\<Sum>k<b. ?m ! k ! j) = (\<Sum>k<b. of_bool (masks ! k ! j))"
      by (rule sum.cong) (simp_all add: nth_mask_tensor [OF mk] j)
    show "?m ! i ! j * returns ! i ! j
              - ?m ! i ! j * ((\<Sum>k<b. ?m ! k ! j * returns ! k ! j) / max (\<Sum>k<b. ?m ! k ! j) 1)
      = of_bool (masks ! i ! j) * returns ! i ! j
            - of_bool (masks ! i ! j)
              * ((\<Sum>k | k < b \<and> masks ! k ! j. returns ! k ! j)
                  / max (real (card {k. k < b \<and> masks ! k ! j})) 1)"
      unfolding 1 2 sum_of_bool_card sum_of_bool_times nth_mask_tensor [OF mk i j] ..
  qed
  then show ?thesis
    using normalized_returns_core [OF ret hm b]
    by (simp only: normalized_returns_def Let_def option.case)
qed

text \<open>
  Claim C3. For returns and masks of shape \<open>(b, T)\<close>, \<open>_normalized_returns\<close>
  returns \<open>masks * returns\<close> minus the masked mean of the column, broadcast to the active
  positions: at an active position \<open>(i, t)\<close> the entry is \<open>returns[i, t]\<close> minus the sum
  of the returns of the rows active at \<open>t\<close> divided by \<open>max(count, 1)\<close>, where
  \<open>count\<close> is the number of those rows, and at a padded position it is 0. The standard
  deviations are computed on the way, and the result is not divided by them: in the example
  the column \<open>(0, 4)\<close> has mean 2 and standard deviation 2, and the entry is \<open>- 2\<close>.
\<close>

theorem normalized_returns_masked_mean:
  assumes "has_shape returns b T" and "has_shape masks b T" and "i < b" and "t < T"
  shows "\<exists>R. normalized_returns returns (Some masks) = Inr R \<and>
           R ! i ! t =
             (if masks ! i ! t
              then returns ! i ! t
                   - (\<Sum>k | k < b \<and> masks ! k ! t. returns ! k ! t)
                       / max (real (card {k. k < b \<and> masks ! k ! t})) 1
              else 0)"
proof -
  have b: "0 < b" using assms(3) by simp
  show ?thesis
    using assms(3,4)
    by (simp add: normalized_returns_value [OF assms(1,2) b])
qed

theorem normalized_returns_masked_mean_witness:
  "has_shape [[0, 1], [4, 5 :: real]] 2 2 \<and>
   has_shape [[True, True], [True, False]] 2 2 \<and>
   (\<exists>R. normalized_returns [[0, 1], [4, 5]] (Some [[True, True], [True, False]]) = Inr R \<and>
        R ! 0 ! 0 = - 2)"
proof -
  let ?rt = "[[0, 1], [4, 5 :: real]]"
  let ?mk = "[[True, True], [True, False]]"
  have h1: "has_shape ?rt 2 2" by (simp add: has_shape_def)
  have h2: "has_shape ?mk 2 2" by (simp add: has_shape_def)
  have p: "(0::nat) < 2" by simp
  have act: "{k. k < 2 \<and> ?mk ! k ! 0} = {0, 1}"
    by (auto simp: less_2_cases_iff)
  from normalized_returns_masked_mean [OF h1 h2 p p]
  obtain R where a: "normalized_returns ?rt (Some ?mk) = Inr R"
    and v: "R ! 0 ! 0 =
             (if ?mk ! 0 ! 0
              then ?rt ! 0 ! 0
                   - (\<Sum>k | k < 2 \<and> ?mk ! k ! 0. ?rt ! k ! 0)
                       / max (real (card {k. k < 2 \<and> ?mk ! k ! 0})) 1
              else 0)"
    by (elim exE conjE)
  have "R ! 0 ! 0 = - 2" unfolding v act by simp
  with a have "\<exists>R. normalized_returns ?rt (Some ?mk) = Inr R \<and> R ! 0 ! 0 = - 2"
    by (intro exI conjI)
  then show ?thesis by (intro conjI h1 h2)
qed

lemma has_shape3_length: "has_shape3 L b T A \<Longrightarrow> length L = b"
  by (simp add: has_shape3_def)

lemma has_shape3_nth: "has_shape3 L b T A \<Longrightarrow> i < b \<Longrightarrow> has_shape (L ! i) T A"
  by (simp add: has_shape3_def list_all_length)

lemma has_shape3_ncols:
  assumes "has_shape3 L b T A" and "0 < b"
  shows "ncols L = T"
proof -
  obtain M Ms where L: "L = M # Ms" using assms by (cases L) (simp_all add: has_shape3_def)
  have "has_shape (L ! 0) T A" using assms by (rule has_shape3_nth)
  then show ?thesis using L by (simp add: ncols_def has_shape_def)
qed

lemma has_shape3_num_classes:
  assumes "has_shape3 L b T A" and "0 < b" and "0 < T"
  shows "num_classes L = A"
proof -
  obtain M Ms where L: "L = M # Ms" using assms by (cases L) (simp_all add: has_shape3_def)
  have "has_shape (L ! 0) T A" using assms(1,2) by (rule has_shape3_nth)
  then have "ncols (L ! 0) = A" using assms(3) by (rule has_shape_ncols)
  then show ?thesis using L by (simp add: num_classes_def)
qed

lemma cross_entropy_value:
  assumes "has_shape3 logits b T A" and "has_shape actions b T" and "0 < b" and "0 < T"
    and "list_all (list_all (valid_target A)) actions"
  shows "cross_entropy logits actions =
     Inr (tab2 b T (\<lambda>i t. nll_at (logits ! i ! t) (actions ! i ! t)))"
proof -
  have "nrows logits = b" using assms(1) by (simp add: nrows_def has_shape3_length)
  moreover have "nrows actions = b" using assms(2) by (rule has_shape_nrows)
  moreover have "ncols logits = T" using assms(1,3) by (rule has_shape3_ncols)
  moreover have "ncols actions = T" using assms(2,3) by (rule has_shape_ncols)
  moreover have "num_classes logits = A" using assms(1,3,4) by (rule has_shape3_num_classes)
  ultimately show ?thesis using assms(5) by (simp add: cross_entropy_def)
qed

lemma map_map_tab2: "map (map g) (tab2 r c f) = tab2 r c (\<lambda>i j. g (f i j))"
  by (simp add: tab2_def)

lemma concat_replicate_single: "concat (replicate n [x]) = replicate n x"
  by (induction n) simp_all

lemma tile_cols_row_sums:
  "tile_cols (sum_dim1_keepdim (tab2 r c f)) s = tab2 r s (\<lambda>i j. \<Sum>k<c. f i k)"
proof -
  have "map (\<lambda>j. \<Sum>k<c. f i k) [0..<s] = replicate s (\<Sum>k<c. f i k)" for i
    by (simp add: map_replicate_const)
  then show ?thesis
    by (simp add: tile_cols_def sum_dim1_keepdim_def tab2_def concat_replicate_single
        sum_list_upt_sum o_def)
qed

lemma episode_entropy_core:
  assumes lg: "has_shape3 logits b T A" and ac: "has_shape actions b T"
    and hm: "has_shape m b T" and b: "0 < b" and T: "0 < T"
    and ok: "list_all (list_all (valid_target A)) actions"
  shows "bindE (cross_entropy logits actions) (\<lambda>nll.
         let step_entropy = map (map uminus) nll;
             steps = ncols actions
         in bindE (ew2 (*) m step_entropy) (\<lambda>ms.
            ew2 (*) m (tile_cols (sum_dim1_keepdim ms) steps)))
     = Inr (tab2 b T (\<lambda>i t. m ! i ! t
              * (\<Sum>k<T. m ! i ! k * - nll_at (logits ! i ! k) (actions ! i ! k))))"
proof -
  let ?se = "tab2 b T (\<lambda>i t. - nll_at (logits ! i ! t) (actions ! i ! t))"
  let ?ms = "tab2 b T (\<lambda>i t. m ! i ! t * - nll_at (logits ! i ! t) (actions ! i ! t))"
  let ?ti = "tab2 b T (\<lambda>i t. \<Sum>k<T. m ! i ! k * - nll_at (logits ! i ! k) (actions ! i ! k))"
  have nc: "ncols actions = T" using ac b by (rule has_shape_ncols)
  have e1: "ew2 (*) m ?se = Inr ?ms"
  proof -
    have "ew2 (*) m ?se = Inr (tab2 b T (\<lambda>i t. m ! i ! t * ?se ! i ! t))"
      by (rule ew2_same_shape [OF hm]) simp
    also have "tab2 b T (\<lambda>i t. m ! i ! t * ?se ! i ! t) = ?ms"
      by (rule tab2_cong) simp
    finally show ?thesis .
  qed
  have e2: "tile_cols (sum_dim1_keepdim ?ms) T = ?ti"
    by (rule tile_cols_row_sums)
  have e3: "ew2 (*) m ?ti = Inr (tab2 b T (\<lambda>i t. m ! i ! t
              * (\<Sum>k<T. m ! i ! k * - nll_at (logits ! i ! k) (actions ! i ! k))))"
  proof -
    have "ew2 (*) m ?ti = Inr (tab2 b T (\<lambda>i t. m ! i ! t * ?ti ! i ! t))"
      by (rule ew2_same_shape [OF hm]) simp
    also have "tab2 b T (\<lambda>i t. m ! i ! t * ?ti ! i ! t) = tab2 b T (\<lambda>i t. m ! i ! t
              * (\<Sum>k<T. m ! i ! k * - nll_at (logits ! i ! k) (actions ! i ! k)))"
      by (rule tab2_cong) simp
    finally show ?thesis .
  qed
  show ?thesis
    by (simp only: cross_entropy_value [OF lg ac b T ok] bindE_Inr Let_def map_map_tab2
        nc e1 e2 e3)
qed

lemma episode_entropy_value:
  assumes lg: "has_shape3 logits b T A" and ac: "has_shape actions b T"
    and mk: "has_shape masks b T" and b: "0 < b" and T: "0 < T"
    and ok: "list_all (list_all (valid_target A)) actions"
  shows "episode_entropy logits actions masks =
     Inr (tab2 b T (\<lambda>i t. of_bool (masks ! i ! t)
            * (\<Sum>k | k < T \<and> masks ! i ! k. - nll_at (logits ! i ! k) (actions ! i ! k))))"
proof -
  let ?m = "mask_tensor masks"
  have hm: "has_shape ?m b T" using mk by (rule has_shape_mask_tensor)
  have "tab2 b T (\<lambda>i t. ?m ! i ! t
              * (\<Sum>k<T. ?m ! i ! k * - nll_at (logits ! i ! k) (actions ! i ! k)))
     = tab2 b T (\<lambda>i t. of_bool (masks ! i ! t)
            * (\<Sum>k | k < T \<and> masks ! i ! k. - nll_at (logits ! i ! k) (actions ! i ! k)))"
  proof (rule tab2_cong)
    fix i t assume i: "i < b" and t: "t < T"
    have 1: "(\<Sum>k<T. ?m ! i ! k * - nll_at (logits ! i ! k) (actions ! i ! k))
        = (\<Sum>k<T. of_bool (masks ! i ! k) * - nll_at (logits ! i ! k) (actions ! i ! k))"
      by (rule sum.cong) (simp_all add: nth_mask_tensor [OF mk i])
    show "?m ! i ! t * (\<Sum>k<T. ?m ! i ! k * - nll_at (logits ! i ! k) (actions ! i ! k))
       = of_bool (masks ! i ! t)
            * (\<Sum>k | k < T \<and> masks ! i ! k. - nll_at (logits ! i ! k) (actions ! i ! k))"
      unfolding 1 sum_of_bool_times nth_mask_tensor [OF mk i t] ..
  qed
  then show ?thesis
    using episode_entropy_core [OF lg ac hm b T ok]
    by (simp only: episode_entropy_def Let_def)
qed

lemma sum_list_exp_pos: "l \<noteq> [] \<Longrightarrow> 0 < (\<Sum>x\<leftarrow>l. exp (x::real))"
proof (induction l)
  case Nil
  then show ?case by simp
next
  case (Cons x xs)
  have "0 \<le> (\<Sum>y\<leftarrow>xs. exp y)" by (rule sum_list_nonneg) auto
  then show ?case using exp_gt_zero [of x] by (simp add: add_pos_nonneg)
qed

lemma neg_nll_at_log_prob:
  assumes "0 \<le> a" and "a < int (length l)"
  shows "- nll_at l a = ln (softmax_prob l (nat a))"
proof -
  have "l \<noteq> []" using assms by auto
  then have S: "0 < (\<Sum>x\<leftarrow>l. exp x)" by (rule sum_list_exp_pos)
  have "ln (softmax_prob l (nat a)) = ln (exp (l ! nat a)) - ln (\<Sum>x\<leftarrow>l. exp x)"
    unfolding softmax_prob_def using S by (simp add: ln_div)
  then show ?thesis using assms by (simp add: nll_at_def)
qed

text \<open>
  Claim C2, counterexample. One episode with one active timestep, two actions with equal
  logits, action 0 taken: the term computed by \<open>_episode_entropy\<close> is
  \<open>log(1/2) = - log 2\<close>, the log-probability of the action taken, while the entropy of
  the uniform distribution over two actions is \<open>log 2\<close>.
\<close>

theorem episode_entropy_counterexample:
  "episode_entropy [[[0, 0]]] [[0]] [[True]] = Inr [[- ln 2]] \<and>
   described_episode_entropy [[[0, 0]]] [[True]] = [[ln 2]] \<and>
   - ln 2 \<noteq> (ln 2 :: real)"
proof -
  have 1: "episode_entropy [[[0, 0]]] [[0]] [[True]] = Inr [[- ln 2]]"
    by (simp add: episode_entropy_def cross_entropy_def nrows_def ncols_def num_classes_def
        valid_target_def tab2_def nll_at_def ew2_def bget2_def mask_tensor_def
        sum_dim1_keepdim_def tile_cols_def)
  have 2: "described_episode_entropy [[[0, 0]]] [[True]] = [[ln 2]]"
    by (simp add: described_episode_entropy_def nrows_def ncols_def tab2_def dist_entropy_def
        softmax_prob_def ln_div)
  have 3: "- ln 2 \<noteq> (ln 2 :: real)"
    using ln_gt_zero [of "2 :: real"] by simp
  show ?thesis by (intro conjI 1 2 3)
qed

text \<open>
  Claim C2, amended. For logits of shape \<open>(b, T, A)\<close>, actions (all in \<open>0, ..., A - 1\<close>)
  and masks of shape \<open>(b, T)\<close>, the term that \<open>step\<close> subtracts (as
  \<open>0.5 * ereg * term\<close>) is, at every active timestep of an episode, the sum over the
  active timesteps of that episode of the log-probability that the policy gives to the
  action taken there (the negated cross-entropy), and it is 0 at padded timesteps.
\<close>

theorem episode_entropy_log_prob:
  assumes "has_shape3 logits b T A" and "has_shape actions b T" and "has_shape masks b T"
    and "list_all (list_all (\<lambda>a. 0 \<le> a \<and> a < int A)) actions"
    and "i < b" and "t < T"
  shows "\<exists>E. episode_entropy logits actions masks = Inr E \<and>
           E ! i ! t =
             (if masks ! i ! t
              then (\<Sum>k | k < T \<and> masks ! i ! k.
                      ln (softmax_prob (logits ! i ! k) (nat (actions ! i ! k))))
              else 0)"
proof -
  have b: "0 < b" and T: "0 < T" using assms(5,6) by simp_all
  have ok: "list_all (list_all (valid_target A)) actions"
    using assms(4) by (simp add: list_all_length valid_target_def)
  have "(\<Sum>k | k < T \<and> masks ! i ! k. - nll_at (logits ! i ! k) (actions ! i ! k))
      = (\<Sum>k | k < T \<and> masks ! i ! k.
            ln (softmax_prob (logits ! i ! k) (nat (actions ! i ! k))))"
  proof (rule sum.cong)
    fix k assume "k \<in> {k. k < T \<and> masks ! i ! k}"
    then have k: "k < T" by simp
    have "length (logits ! i ! k) = A"
      using has_shape3_nth [OF assms(1,5)] k by (rule has_shape_row)
    moreover have "k < length (actions ! i)"
      using has_shape_row [OF assms(2,5)] k by simp
    moreover have "i < length actions"
      using has_shape_length [OF assms(2)] assms(5) by simp
    ultimately have "0 \<le> actions ! i ! k \<and> actions ! i ! k < int (length (logits ! i ! k))"
      using assms(4) by (simp add: list_all_length)
    then show "- nll_at (logits ! i ! k) (actions ! i ! k)
        = ln (softmax_prob (logits ! i ! k) (nat (actions ! i ! k)))"
      by (simp add: neg_nll_at_log_prob)
  qed simp
  then show ?thesis
    using assms(5,6)
    by (simp add: episode_entropy_value [OF assms(1,2,3) b T ok])
qed

theorem episode_entropy_log_prob_witness:
  "has_shape3 [[[0, 0 :: real]]] 1 1 2 \<and> has_shape [[0 :: int]] 1 1 \<and> has_shape [[True]] 1 1 \<and>
   list_all (list_all (\<lambda>a. 0 \<le> a \<and> a < int 2)) [[0]] \<and>
   (\<exists>E. episode_entropy [[[0, 0]]] [[0]] [[True]] = Inr E \<and> E ! 0 ! 0 = ln (1 / 2))"
proof -
  have h1: "has_shape3 [[[0, 0 :: real]]] 1 1 2" by (simp add: has_shape3_def has_shape_def)
  have h2: "has_shape [[0 :: int]] 1 1" by (simp add: has_shape_def)
  have h3: "has_shape [[True]] 1 1" by (simp add: has_shape_def)
  have h4: "list_all (list_all (\<lambda>a. 0 \<le> a \<and> a < int 2)) [[0]]" by simp
  have p: "(0::nat) < 1" by simp
  have act: "{k. k < 1 \<and> [[True]] ! 0 ! k} = {0}" by auto
  from episode_entropy_log_prob [OF h1 h2 h3 h4 p p]
  obtain E where a: "episode_entropy [[[0, 0]]] [[0]] [[True]] = Inr E"
    and v: "E ! 0 ! 0 =
             (if [[True]] ! 0 ! 0
              then (\<Sum>k | k < 1 \<and> [[True]] ! 0 ! k.
                      ln (softmax_prob ([[[0, 0]]] ! 0 ! k) (nat ([[0]] ! 0 ! k))))
              else 0)"
    by (elim exE conjE)
  have "E ! 0 ! 0 = ln (1 / 2)" unfolding v act by (simp add: softmax_prob_def)
  with a have ex: "\<exists>E. episode_entropy [[[0, 0]]] [[0]] [[True]] = Inr E \<and> E ! 0 ! 0 = ln (1 / 2)"
    by (intro exI conjI)
  show ?thesis by (intro conjI h1 h2 h3 h4 ex)
qed

lemma sum_all_tab2: "sum_all (tab2 r c f) = (\<Sum>i<r. \<Sum>j<c. f i j)"
  by (simp add: sum_all_def tab2_def o_def sum_list_upt_sum)

lemma sum_all_mask_tensor:
  assumes "has_shape masks b T"
  shows "sum_all (mask_tensor masks) = (\<Sum>i<b. \<Sum>j<T. of_bool (masks ! i ! j))"
proof -
  have "mask_tensor masks = tab2 b T (\<lambda>i j. of_bool (masks ! i ! j))"
    using assms
    by (auto simp: mask_tensor_def tab2_def has_shape_def list_all_length
        intro!: nth_equalityI)
  then show ?thesis by (simp add: sum_all_tab2)
qed

lemma mask_count_zero_iff:
  assumes "has_shape masks b T"
  shows "sum_all (mask_tensor masks) = 0 \<longleftrightarrow> list_all (list_all (\<lambda>x. \<not> x)) masks"
proof -
  have inner: "(\<Sum>j<T. of_bool (P j) :: real) = 0 \<longleftrightarrow> (\<forall>j<T. \<not> P j)" for P
    using sum_nonneg_eq_0_iff [of "{..<T}" "\<lambda>j. of_bool (P j) :: real"] by auto
  have "(\<Sum>i<b. \<Sum>j<T. of_bool (masks ! i ! j) :: real) = 0
      \<longleftrightarrow> (\<forall>i<b. (\<Sum>j<T. of_bool (masks ! i ! j) :: real) = 0)"
    using sum_nonneg_eq_0_iff [of "{..<b}" "\<lambda>i. \<Sum>j<T. of_bool (masks ! i ! j) :: real"]
    by (auto simp: sum_nonneg)
  also have "\<dots> \<longleftrightarrow> (\<forall>i<b. \<forall>j<T. \<not> masks ! i ! j)"
    by (simp only: inner)
  also have "\<dots> \<longleftrightarrow> list_all (list_all (\<lambda>x. \<not> x)) masks"
    using assms by (auto simp: has_shape_def list_all_length)
  finally show ?thesis by (simp add: sum_all_mask_tensor [OF assms])
qed

lemma step_structure:
  assumes lg: "has_shape3 (policy_network obs) b T A" and ac: "has_shape actions b T"
    and rw: "has_shape rewards b T" and mk: "has_shape masks b T"
    and b: "0 < b" and T: "0 < T"
    and ok: "list_all (list_all (valid_target A)) actions"
  shows "\<exists>q. step policy_network g e (obs, actions, rewards, masks) =
     Inr (tdiv (sum_all (tab2 b T (\<lambda>i t. of_bool (masks ! i ! t) * q i t)))
               (sum_all (mask_tensor masks)))"
proof -
  let ?m = "mask_tensor masks"
  let ?lg = "policy_network obs"
  have hm: "has_shape ?m b T" using mk by (rule has_shape_mask_tensor)
  obtain q1 where e1: "discounted_cumulative_returns rewards (Some masks) g = Inr q1"
    and s1: "has_shape q1 b T"
    using dcr_value [OF rw hm b, of g]
    by (simp add: discounted_cumulative_returns_def)
  obtain en where e2: "episode_entropy ?lg actions masks = Inr en" and s2: "has_shape en b T"
    using episode_entropy_value [OF lg ac mk b T ok] by simp
  have s2': "has_shape (map (map (\<lambda>x. 0.5 * e * x)) en) b T"
    using s2 by (rule has_shape_map_map)
  obtain q2 where e3: "ew2 (-) q1 (map (map (\<lambda>x. 0.5 * e * x)) en) = Inr q2"
    and s3: "has_shape q2 b T"
    using ew2_same_shape [OF s1 s2', of "(-)"] by simp
  obtain q3 where e4: "normalized_returns q2 (Some masks) = Inr q3" and s4: "has_shape q3 b T"
    using normalized_returns_value [OF s3 mk b] by simp
  obtain nll where e5: "cross_entropy ?lg actions = Inr nll" and s5: "has_shape nll b T"
    using cross_entropy_value [OF lg ac b T ok] by simp
  let ?mn = "tab2 b T (\<lambda>i t. ?m ! i ! t * nll ! i ! t)"
  have e6: "ew2 (*) ?m nll = Inr ?mn"
    using hm s5 by (rule ew2_same_shape)
  have e7: "ew2 (*) ?mn q3 = Inr (tab2 b T (\<lambda>i t. of_bool (masks ! i ! t) * (nll ! i ! t * q3 ! i ! t)))"
  proof -
    have "ew2 (*) ?mn q3 = Inr (tab2 b T (\<lambda>i t. ?mn ! i ! t * q3 ! i ! t))"
      by (rule ew2_same_shape [OF _ s4]) simp
    also have "tab2 b T (\<lambda>i t. ?mn ! i ! t * q3 ! i ! t)
        = tab2 b T (\<lambda>i t. of_bool (masks ! i ! t) * (nll ! i ! t * q3 ! i ! t))"
      by (rule tab2_cong) (simp add: nth_mask_tensor [OF mk])
    finally show ?thesis .
  qed
  have "step policy_network g e (obs, actions, rewards, masks) =
     Inr (tdiv (sum_all (tab2 b T (\<lambda>i t. of_bool (masks ! i ! t) * (nll ! i ! t * q3 ! i ! t))))
               (sum_all ?m))"
    by (simp only: step_def prod.case Let_def e1 e2 e3 e4 e5 e6 e7 bindE_Inr)
  then show ?thesis by (intro exI [of _ "\<lambda>i t. nll ! i ! t * q3 ! i ! t"])
qed

text \<open>
  Claim C4, counterexample. A batch of one episode with one timestep whose mask is zero:
  \<open>step\<close> does not fail, it computes the loss \<open>0 / 0\<close>, a NaN, and goes on to the
  backward pass. A batch whose masks have one row while actions, rewards and logits have
  two: the masks are broadcast over the rows and \<open>step\<close> computes a loss as well.
\<close>

theorem step_malformed_batch_counterexample:
  "step (\<lambda>_. [[[0, 0]]]) (9 / 10) 0 ((), [[0]], [[1]], [[False]]) = Inr NaN \<and>
   step (\<lambda>_. [[[0], [0]], [[0], [0]]]) (9 / 10) 0
     ((), [[0, 0], [0, 0]], [[1, 1], [1, 1]], [[True, True]]) = Inr (Fin 0)"
proof -
  have 1: "step (\<lambda>_. [[[0, 0]]]) (9 / 10) 0 ((), [[0]], [[1]], [[False]]) = Inr NaN"
    by (simp add: step_def discounted_cumulative_returns_def episode_entropy_def
      normalized_returns_def cross_entropy_def matmul_def toeplitz_def ew2_def ew1_def
      bget1_def bget2_def bcast_dim_def nrows_def ncols_def num_classes_def valid_target_def
      tab2_def nll_at_def mask_tensor_def sum_dim0_def sum_dim1_keepdim_def sum_all_def
      tile_cols_def tile_rows_def tdiv_def Let_def)
  have u: "[0..<2] = [0, Suc 0]" by (simp add: upt_rec)
  have 2: "step (\<lambda>_. [[[0], [0]], [[0], [0]]]) (9 / 10) 0
     ((), [[0, 0], [0, 0]], [[1, 1], [1, 1]], [[True, True]]) = Inr (Fin 0)"
    by (simp add: step_def discounted_cumulative_returns_def episode_entropy_def
      normalized_returns_def cross_entropy_def matmul_def toeplitz_def ew2_def ew1_def
      bget1_def bget2_def bcast_dim_def nrows_def ncols_def num_classes_def valid_target_def
      tab2_def nll_at_def mask_tensor_def sum_dim0_def sum_dim1_keepdim_def sum_all_def
      tile_cols_def tile_rows_def tdiv_def Let_def u)
  show ?thesis by (intro conjI 1 2)
qed

text \<open>The exceptions of the tensor operations and of the functions built from them.\<close>

lemma bindE_error:
  assumes "bindE m f = Inl e" and "\<And>e. m = Inl e \<Longrightarrow> P e" and "\<And>x e. f x = Inl e \<Longrightarrow> P e"
  shows "P e"
  using assms by (cases m) (simp_all add: bindE_def)

lemma ew1_error: "ew1 f u v = Inl e \<Longrightarrow> e = RuntimeError"
  by (simp add: ew1_def split: option.splits)

lemma ew2_error: "ew2 f A B = Inl e \<Longrightarrow> e = RuntimeError"
  by (simp add: ew2_def split: option.splits)

lemma matmul_error: "matmul A M = Inl e \<Longrightarrow> e = RuntimeError"
  by (simp add: matmul_def split: if_splits)

lemma cross_entropy_error:
  "cross_entropy logits actions = Inl e \<Longrightarrow> e = RuntimeError \<or> e = ValueError \<or> e = IndexError"
  by (simp add: cross_entropy_def split: if_splits)

lemma discounted_cumulative_returns_error:
  "discounted_cumulative_returns rewards masks g = Inl e \<Longrightarrow> e = RuntimeError"
  unfolding discounted_cumulative_returns_def Let_def
  by (erule bindE_error [where P = "\<lambda>e. e = RuntimeError"]) (auto dest: matmul_error ew2_error)

lemma normalized_returns_error:
  "normalized_returns returns masks = Inl e \<Longrightarrow> e = RuntimeError"
  unfolding normalized_returns_def Let_def
  by (elim bindE_error [where P = "\<lambda>e. e = RuntimeError"]) (auto dest: ew1_error ew2_error)

lemma episode_entropy_error:
  "episode_entropy logits actions masks = Inl e
   \<Longrightarrow> e = RuntimeError \<or> e = ValueError \<or> e = IndexError"
  unfolding episode_entropy_def Let_def
  by (elim bindE_error [where P = "\<lambda>e. e = RuntimeError \<or> e = ValueError \<or> e = IndexError"])
     (auto dest: cross_entropy_error ew2_error)

lemma step_error:
  "step policy_network g ereg bt = Inl e \<Longrightarrow> e = RuntimeError \<or> e = ValueError \<or> e = IndexError"
  unfolding step_def Let_def
  by (cases bt, simp only: prod.case,
      elim bindE_error [where P = "\<lambda>e. e = RuntimeError \<or> e = ValueError \<or> e = IndexError"])
     (auto dest: discounted_cumulative_returns_error episode_entropy_error
        normalized_returns_error cross_entropy_error ew2_error)

text \<open>
  Claim C4, amended. \<open>step\<close> does not check the batch and has no exception of its own:
  for every batch it either computes a loss or raises the \<open>RuntimeError\<close>,
  \<open>ValueError\<close> or \<open>IndexError\<close> of a tensor operation that cannot broadcast or index
  its arguments. For logits of shape \<open>(b, T, A)\<close> and actions, rewards and masks of shape
  \<open>(b, T)\<close>, with at least one episode and one timestep and every action a class index
  (or the ignored index), the computation of the loss does not fail, and when the masks
  are all zero the loss is a NaN, from \<open>0 / 0\<close>.
\<close>

theorem step_without_batch_check:
  "((\<exists>loss. step policy_network g e bt = Inr loss) \<or>
    step policy_network g e bt = Inl RuntimeError \<or>
    step policy_network g e bt = Inl ValueError \<or>
    step policy_network g e bt = Inl IndexError) \<and>
   (has_shape3 (policy_network obs) b T A \<and> has_shape actions b T \<and>
    has_shape rewards b T \<and> has_shape masks b T \<and> 0 < b \<and> 0 < T \<and>
    list_all (list_all (valid_target A)) actions \<longrightarrow>
    (\<exists>loss. step policy_network g e (obs, actions, rewards, masks) = Inr loss \<and>
       (list_all (list_all (\<lambda>x. \<not> x)) masks \<longrightarrow> loss = NaN)))"
proof (intro conjI impI)
  show "(\<exists>loss. step policy_network g e bt = Inr loss) \<or>
    step policy_network g e bt = Inl RuntimeError \<or>
    step policy_network g e bt = Inl ValueError \<or>
    step policy_network g e bt = Inl IndexError"
  proof (cases "step policy_network g e bt")
    case (Inl err)
    then show ?thesis using step_error [OF Inl] by auto
  next
    case (Inr loss)
    then show ?thesis by simp
  qed
next
  assume h: "has_shape3 (policy_network obs) b T A \<and> has_shape actions b T \<and>
    has_shape rewards b T \<and> has_shape masks b T \<and> 0 < b \<and> 0 < T \<and>
    list_all (list_all (valid_target A)) actions"
  then have lg: "has_shape3 (policy_network obs) b T A" and ac: "has_shape actions b T"
    and rw: "has_shape rewards b T" and mk: "has_shape masks b T"
    and b: "0 < b" and T: "0 < T"
    and ok: "list_all (list_all (valid_target A)) actions"
    by simp_all
  obtain q where st: "step policy_network g e (obs, actions, rewards, masks) =
     Inr (tdiv (sum_all (tab2 b T (\<lambda>i t. of_bool (masks ! i ! t) * q i t)))
               (sum_all (mask_tensor masks)))"
    using step_structure [where policy_network = policy_network and obs = obs,
        OF lg ac rw mk b T ok, of g e]
    by blast
  let ?W = "sum_all (tab2 b T (\<lambda>i t. of_bool (masks ! i ! t) * q i t))"
  let ?C = "sum_all (mask_tensor masks)"
  have "tdiv ?W ?C = NaN" if zero: "list_all (list_all (\<lambda>x. \<not> x)) masks"
  proof -
    have C: "?C = 0" using zero by (simp add: mask_count_zero_iff [OF mk])
    have "\<not> masks ! i ! t" if "i < b" "t < T" for i t
      using zero mk that by (simp add: has_shape_def list_all_length)
    then have "?W = 0" by (simp add: sum_all_tab2)
    then show ?thesis using C by (simp add: tdiv_def)
  qed
  then show "\<exists>loss. step policy_network g e (obs, actions, rewards, masks) = Inr loss \<and>
       (list_all (list_all (\<lambda>x. \<not> x)) masks \<longrightarrow> loss = NaN)"
    using st by simp
qed

text \<open>
  Two instances: a batch of one episode with one timestep whose mask is zero, and a batch
  whose rewards have two rows and whose masks have three, which the product of the
  returns with the masks cannot broadcast.
\<close>

theorem step_without_batch_check_witness:
  "has_shape3 ((\<lambda>_ :: unit. [[[0, 0 :: real]]]) ()) 1 1 2 \<and> has_shape [[0 :: int]] 1 1 \<and>
   has_shape [[1 :: real]] 1 1 \<and> has_shape [[False]] 1 1 \<and>
   list_all (list_all (valid_target 2)) [[0]] \<and>
   list_all (list_all (\<lambda>x. \<not> x)) [[False]] \<and>
   step (\<lambda>_. [[[0, 0]]]) (9 / 10) 0 ((), [[0]], [[1]], [[False]]) = Inr NaN \<and>
   step (\<lambda>_. [[[0, 0]], [[0, 0]]]) (9 / 10) 0
     ((), [[0], [0]], [[1], [1]], [[True], [True], [True]]) = Inl RuntimeError"
proof -
  have h1: "has_shape3 ((\<lambda>_ :: unit. [[[0, 0 :: real]]]) ()) 1 1 2"
    by (simp add: has_shape3_def has_shape_def)
  have h2: "has_shape [[0 :: int]] 1 1" by (simp add: has_shape_def)
  have h3: "has_shape [[1 :: real]] 1 1" by (simp add: has_shape_def)
  have h4: "has_shape [[False]] 1 1" by (simp add: has_shape_def)
  have h5: "list_all (list_all (valid_target 2)) [[0]]" by (simp add: valid_target_def)
  have h6: "list_all (list_all (\<lambda>x. \<not> x)) [[False]]" by simp
  have p: "(0::nat) < 1" by simp
  from step_without_batch_check [where policy_network = "\<lambda>_ :: unit. [[[0, 0 :: real]]]"
      and obs = "()" and b = 1 and T = 1 and A = 2 and actions = "[[0]]"
      and rewards = "[[1]]" and masks = "[[False]]" and g = "9 / 10" and e = 0]
  have imp: "has_shape3 ((\<lambda>_ :: unit. [[[0, 0 :: real]]]) ()) 1 1 2 \<and>
      has_shape [[0 :: int]] 1 1 \<and> has_shape [[1 :: real]] 1 1 \<and> has_shape [[False]] 1 1 \<and>
      (0 :: nat) < 1 \<and> (0 :: nat) < 1 \<and> list_all (list_all (valid_target 2)) [[0]] \<longrightarrow>
      (\<exists>loss. step (\<lambda>_. [[[0, 0]]]) (9 / 10) 0 ((), [[0]], [[1]], [[False]]) = Inr loss \<and>
       (list_all (list_all (\<lambda>x. \<not> x)) [[False]] \<longrightarrow> loss = NaN))"
    by (rule conjunct2)
  have "\<exists>loss. step (\<lambda>_. [[[0, 0]]]) (9 / 10) 0 ((), [[0]], [[1]], [[False]]) = Inr loss \<and>
       (list_all (list_all (\<lambda>x. \<not> x)) [[False]] \<longrightarrow> loss = NaN)"
    by (rule mp [OF imp]) (intro conjI h1 h2 h3 h4 p h5)
  then have s1: "step (\<lambda>_. [[[0, 0]]]) (9 / 10) 0 ((), [[0]], [[1]], [[False]]) = Inr NaN"
    using h6 by auto
  have u: "[0..<2] = [0, Suc 0]" by (simp add: upt_rec)
  have s2: "step (\<lambda>_. [[[0, 0]], [[0, 0]]]) (9 / 10) 0
     ((), [[0], [0]], [[1], [1]], [[True], [True], [True]]) = Inl RuntimeError"
    by (simp add: step_def discounted_cumulative_returns_def matmul_def toeplitz_def ew2_def
      bcast_dim_def nrows_def ncols_def tab2_def mask_tensor_def Let_def u)
  show ?thesis by (intro conjI h1 h2 h3 h4 h5 h6 s1 s2)
qed

section \<open>Properties of the policy\<close>

lemma length_fold_list_update [simp]: "length (fold (\<lambda>i ys. ys[i := v]) idx xs) = length xs"
  by (induction idx arbitrary: xs) simp_all

lemma nth_fold_list_update:
  "j < length xs \<Longrightarrow>
   fold (\<lambda>i ys. ys[i := v]) idx xs ! j = (if j \<in> set idx then v else xs ! j)"
  by (induction idx arbitrary: xs) (auto simp: nth_list_update)

lemma index_put_value:
  assumes "\<forall>i\<in>set idx. i < length xs"
  shows "index_put xs idx v =
     Inr (map (\<lambda>j. if j \<in> set idx then v else xs ! j) [0..<length xs])"
proof -
  have "\<not> list_ex (\<lambda>i. length xs \<le> i) idx"
    using assms by (auto simp: list_ex_iff)
  moreover have "fold (\<lambda>i ys. ys[i := v]) idx xs =
      map (\<lambda>j. if j \<in> set idx then v else xs ! j) [0..<length xs]"
    by (rule nth_equalityI) (simp_all add: nth_fold_list_update)
  ultimately show ?thesis by (simp add: index_put_def)
qed

lemma fold_max_in: "fold max vs (v :: real) \<in> insert v (set vs)"
  by (induction vs arbitrary: v) (auto simp: max_def)

lemma list_max_in: "vs \<noteq> [] \<Longrightarrow> list_max vs \<in> set vs"
  using fold_max_in by (cases vs) auto

lemma fold_max_ge: "(a :: real) \<le> fold max vs a" "v \<in> set vs \<Longrightarrow> v \<le> fold max vs a"
proof (induction vs arbitrary: a)
  case Nil
  { case 1 show ?case by simp next
    case 2 then show ?case by simp }
next
  case (Cons w vs)
  { case 1
    have "a \<le> max w a" by simp
    also have "\<dots> \<le> fold max vs (max w a)" by (rule Cons.IH(1))
    finally show ?case by simp
  next
    case 2
    show ?case
    proof (cases "v = w")
      case True
      have "v \<le> max w a" using True by simp
      also have "\<dots> \<le> fold max vs (max w a)" by (rule Cons.IH(1))
      finally show ?thesis by simp
    next
      case False
      then have "v \<in> set vs" using 2 by simp
      then have "v \<le> fold max vs (max w a)" by (rule Cons.IH(2))
      then show ?thesis by simp
    qed }
qed

lemma list_max_ge: "v \<in> set vs \<Longrightarrow> v \<le> list_max vs"
  using fold_max_ge by (cases vs) auto

lemma set_finite_entries: "set (finite_entries xs) = {v. Fin v \<in> set xs}"
  by (induction xs) (auto simp: finite_entries_def split: tfloat.splits)

lemma fl_fold_ge_one:
  fixes fl :: "real \<Rightarrow> real"
  assumes ge: "\<And>x. 1 \<le> x \<Longrightarrow> 1 \<le> fl x"
  shows "\<forall>e\<in>set es. 0 \<le> e \<Longrightarrow> 1 \<le> a \<Longrightarrow> 1 \<le> fold (\<lambda>e a. fl (a + e)) es a"
proof (induction es arbitrary: a)
  case Nil
  then show ?case by simp
next
  case (Cons e es)
  have e: "0 \<le> e" and es: "\<forall>e\<in>set es. 0 \<le> e" using Cons.prems(1) by simp_all
  have "1 \<le> a + e" using e Cons.prems(2) by simp
  then have "1 \<le> fl (a + e)" by (rule ge)
  then show ?case using Cons.IH [OF es, of "fl (a + e)"] by simp
qed

lemma fl_fold_ge_one_mem:
  fixes fl :: "real \<Rightarrow> real"
  assumes nn: "\<And>x. 0 \<le> x \<Longrightarrow> 0 \<le> fl x" and ge: "\<And>x. 1 \<le> x \<Longrightarrow> 1 \<le> fl x"
  shows "\<forall>e\<in>set es. 0 \<le> e \<Longrightarrow> 1 \<in> set es \<Longrightarrow> 0 \<le> a
           \<Longrightarrow> 1 \<le> fold (\<lambda>e a. fl (a + e)) es a"
proof (induction es arbitrary: a)
  case Nil
  then show ?case by simp
next
  case (Cons e es)
  have e: "0 \<le> e" and es: "\<forall>e\<in>set es. 0 \<le> e" using Cons.prems(1) by simp_all
  show ?case
  proof (cases "e = 1")
    case True
    have "1 \<le> a + e" using True Cons.prems(3) by simp
    then have "1 \<le> fl (a + e)" by (rule ge)
    then show ?thesis using fl_fold_ge_one [where fl = fl and a = "fl (a + e)", OF ge es] by simp
  next
    case False
    then have mem: "1 \<in> set es" using Cons.prems(2) by simp
    have "0 \<le> a + e" using e Cons.prems(3) by simp
    then have "0 \<le> fl (a + e)" by (rule nn)
    then show ?thesis using Cons.IH [OF es mem, of "fl (a + e)"] by simp
  qed
qed

lemma texp_nonneg:
  assumes "\<And>x. 0 \<le> x \<Longrightarrow> 0 \<le> fl x"
  shows "0 \<le> texp fl m x"
  using assms by (cases x) simp_all

text \<open>
  The softmax of a vector without NaN and \<open>+inf\<close> that has a finite entry, for a rounding
  that keeps 0 and 1 and does not cross them: the sum of the exponentials is at least 1,
  since the exponential of the largest entry is 1.
\<close>

lemma softmax_value:
  assumes fl1: "fl 0 = 0" "fl 1 = 1"
    and nn: "\<And>x. 0 \<le> x \<Longrightarrow> 0 \<le> fl x" and ge: "\<And>x. 1 \<le> x \<Longrightarrow> 1 \<le> fl x"
    and no_bad: "\<not> list_ex (\<lambda>x. x = NaN \<or> x = PInf) xs"
    and some_fin: "\<not> list_all (\<lambda>x. x = NInf) xs"
  shows "softmax fl xs =
           map (\<lambda>x. Fin (fl (texp fl (list_max (finite_entries xs)) x
                             / fl_sum fl (map (texp fl (list_max (finite_entries xs))) xs))))
               xs"
    and "1 \<le> fl_sum fl (map (texp fl (list_max (finite_entries xs))) xs)"
    and "Fin (list_max (finite_entries xs)) \<in> set xs"
proof -
  define m where "m = list_max (finite_entries xs)"
  define es where "es = map (texp fl m) xs"
  define s where "s = fl_sum fl es"
  obtain x where x: "x \<in> set xs" "x \<noteq> NInf" using some_fin by (auto simp: list_all_iff)
  have "x \<noteq> NaN" "x \<noteq> PInf" using no_bad x(1) by (auto simp: list_ex_iff)
  then obtain v where "x = Fin v" using x(2) by (cases x) simp_all
  then have "finite_entries xs \<noteq> []"
    using x(1) set_finite_entries [of xs] by (metis empty_iff mem_Collect_eq set_empty)
  then have "m \<in> set (finite_entries xs)" unfolding m_def by (rule list_max_in)
  then have mx: "Fin m \<in> set xs" by (simp add: set_finite_entries)
  then show "Fin (list_max (finite_entries xs)) \<in> set xs" unfolding m_def .
  have "texp fl m (Fin m) = 1" using fl1 by simp
  then have one: "1 \<in> set es" unfolding es_def using mx by (metis image_eqI set_map)
  have pos: "\<forall>e\<in>set es. 0 \<le> e" unfolding es_def using texp_nonneg [of fl m, OF nn] by simp
  show s1: "1 \<le> fl_sum fl (map (texp fl (list_max (finite_entries xs))) xs)"
    unfolding fl_sum_def m_def [symmetric] es_def [symmetric]
    by (rule fl_fold_ge_one_mem [OF nn ge pos one]) simp_all
  then have s0: "s \<noteq> 0" unfolding s_def es_def m_def by simp
  have "softmax fl xs = map (\<lambda>e. tround fl (tdiv e s)) es"
    using no_bad some_fin
    by (simp only: softmax_def Let_def m_def es_def s_def if_False simp_thms)
  also have "\<dots> = map (\<lambda>e. Fin (fl (e / s))) es"
    using s0 by (simp add: tdiv_def tround_def)
  finally show "softmax fl xs =
      map (\<lambda>x. Fin (fl (texp fl (list_max (finite_entries xs)) x
                         / fl_sum fl (map (texp fl (list_max (finite_entries xs))) xs)))) xs"
    unfolding s_def es_def m_def by (simp add: o_def)
qed

text \<open>The masked logits that the policy hands to the softmax.\<close>

lemma policy_masked_logits:
  assumes len: "length (policy_network obs) = n"
  shows "policy fl policy_network n obs (Some lg) =
     Inr (softmax fl (map (\<lambda>j. if int j \<in> set lg then Fin (policy_network obs ! j) else NInf)
                          [0..<n]))"
proof -
  let ?l = "policy_network obs"
  let ?ill = "filter (\<lambda>i. int i \<notin> set lg) [0..<n]"
  let ?ml = "map (\<lambda>j. if int j \<in> set lg then Fin (?l ! j) else NInf) [0..<n]"
  have "index_put (map Fin ?l) ?ill NInf =
      Inr (map (\<lambda>j. if j \<in> set ?ill then NInf else map Fin ?l ! j) [0..<length (map Fin ?l)])"
    by (rule index_put_value) (simp add: len)
  also have "map (\<lambda>j. if j \<in> set ?ill then NInf else map Fin ?l ! j) [0..<length (map Fin ?l)] = ?ml"
    by (simp add: len)
  finally have put: "index_put (map Fin ?l) ?ill NInf = Inr ?ml" .
  show ?thesis
    by (simp only: policy_def Let_def option.case put bindE_Inr)
qed

lemma masked_logits_ok:
  assumes ex: "list_ex (\<lambda>a. 0 \<le> a \<and> a < int n) lg"
  shows "\<not> list_ex (\<lambda>x. x = NaN \<or> x = PInf)
             (map (\<lambda>j. if int j \<in> set lg then Fin (l ! j) else NInf) [0..<n])"
    and "\<not> list_all (\<lambda>x. x = NInf)
             (map (\<lambda>j. if int j \<in> set lg then Fin (l ! j) else NInf) [0..<n])"
proof -
  let ?ml = "map (\<lambda>j. if int j \<in> set lg then Fin (l ! j) else NInf) [0..<n]"
  obtain a where a: "a \<in> set lg" "0 \<le> a" "a < int n"
    using ex by (auto simp: list_ex_iff)
  have na: "nat a < n" "int (nat a) \<in> set lg" using a by simp_all
  show "\<not> list_ex (\<lambda>x. x = NaN \<or> x = PInf) ?ml"
    by (auto simp: list_ex_iff)
  have "?ml ! nat a = Fin (l ! nat a)" using na by simp
  then show "\<not> list_all (\<lambda>x. x = NInf) ?ml"
    using na(1) by (auto simp: list_all_length simp del: nth_map intro!: exI [of _ "nat a"])
qed

text \<open>
  In exact arithmetic the policy gives 0 to every illegal action and a positive number to
  every legal one, and these numbers sum to 1.
\<close>

lemma fold_plus_sum_list: "fold (\<lambda>e a. a + e) es (a :: real) = a + sum_list es"
  by (induction es arbitrary: a) simp_all

lemma policy_exact:
  assumes len: "length (policy_network obs) = n"
    and ex: "list_ex (\<lambda>a. 0 \<le> a \<and> a < int n) lg"
  shows "\<exists>ps. policy (\<lambda>x. x) policy_network n obs (Some lg) = Inr (map Fin ps) \<and>
           length ps = n \<and>
           (\<forall>j<n. (int j \<notin> set lg \<longrightarrow> ps ! j = 0) \<and> (int j \<in> set lg \<longrightarrow> 0 < ps ! j)) \<and>
           (\<Sum>j | j < n \<and> int j \<in> set lg. ps ! j) = 1"
proof -
  let ?l = "policy_network obs"
  let ?ml = "map (\<lambda>j. if int j \<in> set lg then Fin (?l ! j) else NInf) [0..<n]"
  define m where "m = list_max (finite_entries ?ml)"
  define s where "s = fl_sum (\<lambda>x. x) (map (texp (\<lambda>x. x) m) ?ml)"
  define ps where "ps = map (\<lambda>x. texp (\<lambda>x. x) m x / s) ?ml"
  let ?Z = "\<Sum>k | k < n \<and> int k \<in> set lg. exp (?l ! k - m)"
  have ok: "\<not> list_ex (\<lambda>x. x = NaN \<or> x = PInf) ?ml" "\<not> list_all (\<lambda>x. x = NInf) ?ml"
    using ex by (rule masked_logits_ok)+
  have "softmax (\<lambda>x. x) ?ml = map (\<lambda>x. Fin (texp (\<lambda>x. x) m x / s)) ?ml"
    unfolding s_def m_def using _ _ _ _ ok by (rule softmax_value(1)) simp_all
  also have "\<dots> = map Fin ps" unfolding ps_def by (simp add: o_def)
  finally have 1: "policy (\<lambda>x. x) policy_network n obs (Some lg) = Inr (map Fin ps)"
    using policy_masked_logits [where policy_network = policy_network and obs = obs
        and fl = "\<lambda>x. x" and lg = lg, OF len] by simp
  have 2: "length ps = n" by (simp add: ps_def)
  have "s = sum_list (map (texp (\<lambda>x. x) m) ?ml)"
    by (simp add: s_def fl_sum_def fold_plus_sum_list)
  also have "\<dots> = (\<Sum>k<n. if int k \<in> set lg then exp (?l ! k - m) else 0)"
    unfolding map_map o_def sum_list_upt_sum by (rule sum.cong) simp_all
  also have "\<dots> = (\<Sum>k \<in> {k \<in> {..<n}. int k \<in> set lg}. exp (?l ! k - m))"
    by (rule sum.inter_filter [symmetric]) simp
  finally have s: "s = ?Z" by simp
  obtain a where a: "a \<in> set lg" "0 \<le> a" "a < int n"
    using ex by (auto simp: list_ex_iff)
  have na: "nat a < n" "int (nat a) \<in> set lg" using a by simp_all
  have Z: "0 < ?Z"
  proof (rule sum_pos)
    show "finite {k. k < n \<and> int k \<in> set lg}" by simp
    show "{k. k < n \<and> int k \<in> set lg} \<noteq> {}" using na by auto
  qed simp
  have 3: "\<forall>j<n. (int j \<notin> set lg \<longrightarrow> ps ! j = 0) \<and> (int j \<in> set lg \<longrightarrow> 0 < ps ! j)"
    using Z by (simp add: ps_def s)
  have "(\<Sum>j | j < n \<and> int j \<in> set lg. ps ! j)
      = (\<Sum>j | j < n \<and> int j \<in> set lg. exp (?l ! j - m) / ?Z)"
    by (rule sum.cong) (simp_all add: ps_def s)
  also have "\<dots> = ?Z / ?Z" by (rule sum_divide_distrib [symmetric])
  also have "\<dots> = 1" using Z by simp
  finally have 4: "(\<Sum>j | j < n \<and> int j \<in> set lg. ps ! j) = 1" .
  show ?thesis using 1 2 3 4 by blast
qed

text \<open>The rounding to \<open>float32\<close> keeps 0 and 1 and does not cross them.\<close>

lemma round_binary32_zero: "round_binary32 0 = 0"
  by (simp add: round_binary32_def)

lemma round_binary32_one: "round_binary32 1 = 1"
  unfolding round_binary32_def by (rule round_float_one) simp_all

lemma round_binary32_nonneg: "0 \<le> x \<Longrightarrow> 0 \<le> round_binary32 x"
  unfolding round_binary32_def by (rule round_float_nonneg)

lemma round_binary32_ge_one: "1 \<le> x \<Longrightarrow> 1 \<le> round_binary32 x"
  unfolding round_binary32_def by (rule round_float_ge_one) simp_all

lemma round_binary32_nonpos: "x \<le> 0 \<Longrightarrow> round_binary32 x \<le> 0"
  unfolding round_binary32_def by (rule round_float_nonpos)

lemma round_binary32_le_nat:
  assumes "0 \<le> x" and "x \<le> real k" and "k < 2 ^ 24"
  shows "round_binary32 x \<le> real k"
proof -
  have "real k < 2 ^ 24" using assms(3) by (metis of_nat_less_iff of_nat_numeral of_nat_power)
  then have "\<bar>x\<bar> < pow2 (23 + 1)" using assms(1,2) by (simp add: pow2_def)
  moreover have "x \<le> of_int (int k)" using assms(2) by simp
  ultimately have "round_float 23 (- 126) x \<le> of_int (int k)"
    by (intro round_float_le_int) simp_all
  then show ?thesis by (simp add: round_binary32_def)
qed

lemma round_binary32_pos:
  assumes "pow2 (- 149) \<le> x"
  shows "0 < round_binary32 x"
  unfolding round_binary32_def using assms by (intro round_float_pos) simp_all

text \<open>
  In \<open>float32\<close> the exponentials lie between 0 and 1, and the sum of fewer than \<open>2^24\<close>
  of them is at most their number.
\<close>

lemma texp_float32_bounds:
  assumes "x = NInf \<or> (\<exists>v. x = Fin v \<and> v \<le> m)"
  shows "0 \<le> texp round_binary32 m x" and "texp round_binary32 m x \<le> 1"
proof -
  show "0 \<le> texp round_binary32 m x"
    by (rule texp_nonneg) (rule round_binary32_nonneg)
  show "texp round_binary32 m x \<le> 1"
  proof (cases x)
    case (Fin v)
    then have "v - m \<le> 0" using assms by simp
    then have "round_binary32 (v - m) \<le> 0" by (rule round_binary32_nonpos)
    then have "exp (round_binary32 (v - m)) \<le> real 1" by simp
    then have "round_binary32 (exp (round_binary32 (v - m))) \<le> real 1"
      by (intro round_binary32_le_nat) simp_all
    then show ?thesis using Fin by simp
  qed simp_all
qed

lemma fl_sum_float32_le:
  "\<forall>e\<in>set es. 0 \<le> e \<and> e \<le> 1 \<Longrightarrow> 0 \<le> a \<Longrightarrow> a \<le> real k \<Longrightarrow> k + length es < 2 ^ 24
   \<Longrightarrow> fold (\<lambda>e a. round_binary32 (a + e)) es a \<le> real (k + length es)"
proof (induction es arbitrary: a k)
  case Nil
  then show ?case by simp
next
  case (Cons e es)
  have e: "0 \<le> e" "e \<le> 1" and es: "\<forall>e\<in>set es. 0 \<le> e \<and> e \<le> 1"
    using Cons.prems(1) by simp_all
  have k: "Suc k < 2 ^ 24" "Suc k + length es < 2 ^ 24" using Cons.prems(4) by simp_all
  have nn: "0 \<le> a + e" using e Cons.prems(2) by simp
  have "a + e \<le> real (Suc k)" using e Cons.prems(3) by simp
  with nn have le: "round_binary32 (a + e) \<le> real (Suc k)"
    using k(1) by (rule round_binary32_le_nat)
  have "0 \<le> round_binary32 (a + e)" using nn by (rule round_binary32_nonneg)
  with es have "fold (\<lambda>e a. round_binary32 (a + e)) es (round_binary32 (a + e))
      \<le> real (Suc k + length es)"
    using le k(2) by (rule Cons.IH)
  then show ?case by simp
qed

text \<open>
  In \<open>float32\<close> the policy gives 0 to every illegal action and a non-negative number to
  every legal one; with fewer than \<open>2^24\<close> actions, a legal action with the largest logit
  gets a positive number.
\<close>

lemma policy_float32:
  assumes len: "length (policy_network obs) = n"
    and ex: "list_ex (\<lambda>a. 0 \<le> a \<and> a < int n) lg"
  shows "\<exists>ps. policy round_binary32 policy_network n obs (Some lg) = Inr (map Fin ps) \<and>
           length ps = n \<and>
           (\<forall>j<n. (int j \<notin> set lg \<longrightarrow> ps ! j = 0) \<and> (int j \<in> set lg \<longrightarrow> 0 \<le> ps ! j)) \<and>
           (n < 2 ^ 24 \<longrightarrow> (\<exists>k<n. int k \<in> set lg \<and> 0 < ps ! k))"
proof -
  let ?l = "policy_network obs"
  let ?fl = "round_binary32"
  define ml where "ml = map (\<lambda>j. if int j \<in> set lg then Fin (?l ! j) else NInf) [0..<n]"
  define m where "m = list_max (finite_entries ml)"
  define s where "s = fl_sum ?fl (map (texp ?fl m) ml)"
  define ps where "ps = map (\<lambda>x. ?fl (texp ?fl m x / s)) ml"
  have ok: "\<not> list_ex (\<lambda>x. x = NaN \<or> x = PInf) ml" "\<not> list_all (\<lambda>x. x = NInf) ml"
    unfolding ml_def using ex by (rule masked_logits_ok)+
  note fl = round_binary32_zero round_binary32_one round_binary32_nonneg round_binary32_ge_one
  have s1: "1 \<le> s" unfolding s_def m_def using fl ok by (rule softmax_value(2))
  have mx: "Fin m \<in> set ml" unfolding m_def using fl ok by (rule softmax_value(3))
  have "softmax ?fl ml = map (\<lambda>x. Fin (?fl (texp ?fl m x / s))) ml"
    unfolding s_def m_def using fl ok by (rule softmax_value(1))
  also have "\<dots> = map Fin ps" unfolding ps_def by (simp add: o_def)
  finally have 1: "policy ?fl policy_network n obs (Some lg) = Inr (map Fin ps)"
    using policy_masked_logits [where policy_network = policy_network and obs = obs
        and fl = ?fl and lg = lg, OF len]
    by (simp add: ml_def)
  have 2: "length ps = n" by (simp add: ps_def ml_def)
  have nth: "ps ! j = ?fl (texp ?fl m (ml ! j) / s)" if "j < n" for j
    using that by (simp add: ps_def ml_def)
  have ill: "ml ! j = NInf" if "j < n" "int j \<notin> set lg" for j
    using that by (simp add: ml_def)
  have leg: "ml ! j = Fin (?l ! j)" if "j < n" "int j \<in> set lg" for j
    using that by (simp add: ml_def)
  have 3: "\<forall>j<n. (int j \<notin> set lg \<longrightarrow> ps ! j = 0) \<and> (int j \<in> set lg \<longrightarrow> 0 \<le> ps ! j)"
  proof (intro allI impI conjI)
    fix j assume "j < n" "int j \<notin> set lg"
    then show "ps ! j = 0" by (simp add: nth ill round_binary32_zero)
  next
    fix j assume j: "j < n" "int j \<in> set lg"
    have "0 \<le> texp ?fl m (ml ! j)" by (rule texp_nonneg) (rule round_binary32_nonneg)
    then have "0 \<le> texp ?fl m (ml ! j) / s" using s1 by simp
    then have "0 \<le> ?fl (texp ?fl m (ml ! j) / s)" by (rule round_binary32_nonneg)
    then show "0 \<le> ps ! j" using j(1) by (simp add: nth)
  qed
  have 4: "\<exists>k<n. int k \<in> set lg \<and> 0 < ps ! k" if n24: "n < 2 ^ 24"
  proof -
    have lml: "length ml = n" by (simp add: ml_def)
    obtain k where k: "k < n" "ml ! k = Fin m"
      using mx unfolding in_set_conv_nth lml by blast
    have kl: "int k \<in> set lg"
    proof (rule ccontr)
      assume "int k \<notin> set lg"
      with k(1) have "ml ! k = NInf" by (rule ill)
      then show False using k(2) by simp
    qed
    have bounds: "\<forall>e\<in>set (map (texp ?fl m) ml). 0 \<le> e \<and> e \<le> 1"
    proof -
      have "0 \<le> texp ?fl m x \<and> texp ?fl m x \<le> 1" if "x \<in> set ml" for x
      proof -
        have "x = NInf \<or> (\<exists>v. x = Fin v \<and> v \<le> m)"
        proof (cases x)
          case (Fin v)
          then have "v \<in> set (finite_entries ml)" using that by (simp add: set_finite_entries)
          then have "v \<le> m" unfolding m_def by (rule list_max_ge)
          then show ?thesis using Fin by simp
        next
          case PInf
          then show ?thesis using that ok(1) by (auto simp: list_ex_iff)
        next
          case NaN
          then show ?thesis using that ok(1) by (auto simp: list_ex_iff)
        qed simp
        then show ?thesis using texp_float32_bounds [of x m] by simp
      qed
      then show ?thesis by simp
    qed
    have "fold (\<lambda>e a. ?fl (a + e)) (map (texp ?fl m) ml) 0
        \<le> real (0 + length (map (texp ?fl m) ml))"
      using bounds n24 by (intro fl_sum_float32_le) (simp_all add: ml_def)
    then have sn: "s \<le> real n" by (simp add: s_def fl_sum_def ml_def)
    have "real n < 2 ^ 24" using n24 by (metis of_nat_less_iff of_nat_numeral of_nat_power)
    then have s24: "s \<le> 2 ^ 24" using sn by simp
    have "pow2 (- 149) \<le> pow2 (- 24)" by (rule pow2_mono) simp
    also have "pow2 (- 24) = 1 / 2 ^ 24" by (simp add: pow2_def)
    also have "\<dots> \<le> 1 / s" using s1 s24 by (intro divide_left_mono) simp_all
    finally have "0 < ?fl (1 / s)" by (rule round_binary32_pos)
    moreover have "texp ?fl m (Fin m) = 1" by (simp add: round_binary32_zero round_binary32_one)
    ultimately have "0 < ps ! k" using k by (simp add: nth)
    then show ?thesis using k(1) kl by blast
  qed
  show ?thesis using 1 2 3 4 by blast
qed

text \<open>
  \<open>-200\<close> is a \<open>float32\<close> number, and \<open>exp(-200)\<close> is less than half the least positive
  \<open>float32\<close> number \<open>2^(-149)\<close>, so that it is rounded to 0.
\<close>

lemma round_binary32_minus_200: "round_binary32 (- 200) = - 200"
proof -
  have b: "binade (- 200) = 7"
    by (rule binade_eqI) (simp_all add: pow2_def)
  have "(- 200 :: real) = of_int (- 13107200) * pow2 (max (binade (- 200)) (- 126) - 23)"
    unfolding b by (simp add: pow2_def)
  then show ?thesis
    unfolding round_binary32_def by (intro round_float_exact [where m = "- 13107200"]) simp_all
qed

lemma exp_minus_200: "exp (- 200 :: real) < pow2 (- 150)"
proof -
  have "2 \<le> exp (1 :: real)" using exp_ge_add_one_self [of "1 :: real"] by simp
  then have "(2 :: real) ^ 200 \<le> exp 1 ^ 200" by (intro power_mono) simp_all
  also have "exp (1 :: real) ^ 200 = exp 200" using exp_of_nat_mult [of 200 "1 :: real"] by simp
  finally have "(2 :: real) ^ 200 \<le> exp 200" .
  moreover have "(2 :: real) ^ 150 < 2 ^ 200" by (intro power_strict_increasing) simp_all
  ultimately have "(2 :: real) ^ 150 < exp 200" by simp
  then have "1 / exp (200 :: real) < 1 / 2 ^ 150"
    by (intro divide_strict_left_mono) simp_all
  then show ?thesis by (simp add: exp_minus pow2_def divide_simps)
qed

lemma round_binary32_exp_minus_200: "round_binary32 (exp (- 200)) = 0"
proof -
  define x :: real where "x = exp (- 200)"
  have x0: "0 < x" by (simp add: x_def)
  have x1: "x < pow2 (- 150)" unfolding x_def by (rule exp_minus_200)
  have "pow2 (- 150) \<le> pow2 (- 126)" by (rule pow2_mono) simp
  then have "binade x < - 126" using x0 x1 by (intro binade_less) simp_all
  then have e: "max (binade x) (- 126) - 23 = - 149" by simp
  have "pow2 (- 150) = pow2 (- 149) * pow2 (- 1)" using pow2_add [of "- 149" "- 1"] by simp
  then have h: "pow2 (- 150) = pow2 (- 149) / 2" by (simp add: pow2_def)
  have "x / pow2 (- 149) < 1 / 2" using x1 unfolding h by (simp add: divide_simps)
  moreover have "0 \<le> x / pow2 (- 149)" using x0 by simp
  ultimately have "rint (x / pow2 (- 149)) = 0" by (intro rint_nearest) simp_all
  then have "round_binary32 x = 0"
    using x0 by (simp add: round_binary32_def round_float_def e Let_def)
  then show ?thesis unfolding x_def .
qed

text \<open>
  Claim C8, counterexample. Four actions with the logits \<open>[0, 0, -200, 0]\<close> and
  \<open>legal = [0, 2]\<close>, in \<open>float32\<close>: the exponential of \<open>-200\<close> underflows to 0, and the
  policy returns \<open>[1, 0, 0, 0]\<close>. The probability of the legal action 2 is 0: it is not
  positive, and the probability is 0 at an index outside \<open>{1, 3}\<close>.
\<close>

theorem policy_legal_underflow_counterexample:
  "policy round_binary32 (\<lambda>_. [0, 0, - 200, 0]) 4 () (Some [0, 2])
     = Inr [Fin 1, Fin 0, Fin 0, Fin 0]"
proof -
  have u: "[0..<4] = [0, 1, 2, 3]" by (simp add: upt_rec)
  show ?thesis
    by (simp add: policy_def index_put_def softmax_def u finite_entries_def fl_sum_def
        tdiv_def tround_def round_binary32_zero round_binary32_one
        round_binary32_minus_200 round_binary32_exp_minus_200)
qed

text \<open>
  Claim C8, amended. For any observation and any list of legal actions that contains at
  least one index of the action space (\<open>out_features\<close> being the number of logits): in
  \<open>float32\<close> arithmetic the policy returns a vector over the full action space that is
  exactly 0 at every illegal index and not negative at every legal index, and positive at
  one legal index at least when there are fewer than \<open>2^24\<close> actions; in exact
  arithmetic it is exactly 0 at every illegal index and positive at every legal index,
  and the probabilities of the legal indices sum to 1.
\<close>

theorem policy_masks_illegal_actions:
  assumes "length (policy_network obs) = n" and "list_ex (\<lambda>a. 0 \<le> a \<and> a < int n) lg"
  shows "(\<exists>ps. policy round_binary32 policy_network n obs (Some lg) = Inr (map Fin ps) \<and>
             length ps = n \<and>
             (\<forall>j<n. (int j \<notin> set lg \<longrightarrow> ps ! j = 0) \<and> (int j \<in> set lg \<longrightarrow> 0 \<le> ps ! j)) \<and>
             (n < 2 ^ 24 \<longrightarrow> (\<exists>k<n. int k \<in> set lg \<and> 0 < ps ! k))) \<and>
         (\<exists>ps. policy (\<lambda>x. x) policy_network n obs (Some lg) = Inr (map Fin ps) \<and>
             length ps = n \<and>
             (\<forall>j<n. (int j \<notin> set lg \<longrightarrow> ps ! j = 0) \<and> (int j \<in> set lg \<longrightarrow> 0 < ps ! j)) \<and>
             (\<Sum>j | j < n \<and> int j \<in> set lg. ps ! j) = 1)"
proof (rule conjI)
  show "\<exists>ps. policy round_binary32 policy_network n obs (Some lg) = Inr (map Fin ps) \<and>
             length ps = n \<and>
             (\<forall>j<n. (int j \<notin> set lg \<longrightarrow> ps ! j = 0) \<and> (int j \<in> set lg \<longrightarrow> 0 \<le> ps ! j)) \<and>
             (n < 2 ^ 24 \<longrightarrow> (\<exists>k<n. int k \<in> set lg \<and> 0 < ps ! k))"
    using assms by (rule policy_float32)
  show "\<exists>ps. policy (\<lambda>x. x) policy_network n obs (Some lg) = Inr (map Fin ps) \<and>
             length ps = n \<and>
             (\<forall>j<n. (int j \<notin> set lg \<longrightarrow> ps ! j = 0) \<and> (int j \<in> set lg \<longrightarrow> 0 < ps ! j)) \<and>
             (\<Sum>j | j < n \<and> int j \<in> set lg. ps ! j) = 1"
    using assms by (rule policy_exact)
qed

theorem policy_masks_illegal_actions_witness:
  "length ((\<lambda>_ :: unit. [0, 0, - 200, 0 :: real]) ()) = 4 \<and>
   list_ex (\<lambda>a. 0 \<le> a \<and> a < int 4) [0, 2] \<and>
   (\<exists>ps. policy round_binary32 (\<lambda>_. [0, 0, - 200, 0]) 4 () (Some [0, 2]) = Inr (map Fin ps) \<and>
         ps ! 1 = 0 \<and> ps ! 3 = 0 \<and> 0 \<le> ps ! 0 \<and> 0 \<le> ps ! 2 \<and>
         (\<exists>k<4. int k \<in> set [0, 2] \<and> 0 < ps ! k)) \<and>
   (\<exists>ps. policy (\<lambda>x. x) (\<lambda>_. [0, 0, - 200, 0]) 4 () (Some [0, 2]) = Inr (map Fin ps) \<and>
         ps ! 1 = 0 \<and> ps ! 3 = 0 \<and> 0 < ps ! 0 \<and> 0 < ps ! 2 \<and> ps ! 0 + ps ! 2 = 1)"
proof -
  have h1: "length ((\<lambda>_ :: unit. [0, 0, - 200, 0 :: real]) ()) = 4" by simp
  have h2: "list_ex (\<lambda>a. 0 \<le> a \<and> a < int 4) [0, 2]" by simp
  have legal: "{j. j < 4 \<and> int j \<in> set [0, 2]} = {0, 2}" by auto
  from policy_masks_illegal_actions [where policy_network = "\<lambda>_ :: unit. [0, 0, - 200, 0 :: real]"
      and obs = "()", OF h1 h2]
  obtain ps qs
    where a: "policy round_binary32 (\<lambda>_ :: unit. [0, 0, - 200, 0]) 4 () (Some [0, 2])
                = Inr (map Fin ps)"
    and z: "\<forall>j<4. (int j \<notin> set [0, 2] \<longrightarrow> ps ! j = 0) \<and> (int j \<in> set [0, 2] \<longrightarrow> 0 \<le> ps ! j)"
    and w: "(4 :: nat) < 2 ^ 24 \<longrightarrow> (\<exists>k<4. int k \<in> set [0, 2] \<and> 0 < ps ! k)"
    and b: "policy (\<lambda>x. x) (\<lambda>_ :: unit. [0, 0, - 200, 0]) 4 () (Some [0, 2]) = Inr (map Fin qs)"
    and y: "\<forall>j<4. (int j \<notin> set [0, 2] \<longrightarrow> qs ! j = 0) \<and> (int j \<in> set [0, 2] \<longrightarrow> 0 < qs ! j)"
    and s: "(\<Sum>j | j < 4 \<and> int j \<in> set [0, 2]. qs ! j) = 1"
    by (elim exE conjE)
  have z1: "ps ! 1 = 0" using z [rule_format, of 1] by simp
  have z3: "ps ! 3 = 0" using z [rule_format, of 3] by simp
  have p0: "0 \<le> ps ! 0" using z [rule_format, of 0] by simp
  have p2: "0 \<le> ps ! 2" using z [rule_format, of 2] by simp
  have pk: "\<exists>k<4. int k \<in> set [0, 2] \<and> 0 < ps ! k" by (rule mp [OF w]) simp
  have y1: "qs ! 1 = 0" using y [rule_format, of 1] by simp
  have y3: "qs ! 3 = 0" using y [rule_format, of 3] by simp
  have q0: "0 < qs ! 0" using y [rule_format, of 0] by simp
  have q2: "0 < qs ! 2" using y [rule_format, of 2] by simp
  have s1: "qs ! 0 + qs ! 2 = 1" using s unfolding legal by simp
  have ex1: "\<exists>ps. policy round_binary32 (\<lambda>_. [0, 0, - 200, 0]) 4 () (Some [0, 2])
                  = Inr (map Fin ps) \<and>
         ps ! 1 = 0 \<and> ps ! 3 = 0 \<and> 0 \<le> ps ! 0 \<and> 0 \<le> ps ! 2 \<and>
         (\<exists>k<4. int k \<in> set [0, 2] \<and> 0 < ps ! k)"
    by (intro exI [of _ ps] conjI) (rule a z1 z3 p0 p2 pk)+
  have ex2: "\<exists>ps. policy (\<lambda>x. x) (\<lambda>_. [0, 0, - 200, 0]) 4 () (Some [0, 2]) = Inr (map Fin ps) \<and>
         ps ! 1 = 0 \<and> ps ! 3 = 0 \<and> 0 < ps ! 0 \<and> 0 < ps ! 2 \<and> ps ! 0 + ps ! 2 = 1"
    by (intro exI conjI) (rule b y1 y3 q0 q2 s1)+
  show ?thesis by (intro conjI h1 h2 ex1 ex2)
qed

end
